theory Spec2Isabelle
  imports Main
begin

section \<open>Log classifier (pkg/player/silencedetect.go)\<close>

subsection \<open>The regular expressions of the source\<close>

text \<open>
  The three patterns of the source use literals, character classes, \<open>+\<close> on a
  character class, \<open>?\<close> on a group, sequencing and the end anchor \<open>$\<close>. All three
  start with \<open>^\<close>, so a match is only ever attempted at offset 0.
\<close>

datatype regex =
    Chr char
  | Cls string
  | PlusCls string
  | Opt regex
  | Seq regex regex
  | Eps
  | EndOfText

fun seqs :: "regex list \<Rightarrow> regex" where
  "seqs [] = Eps"
| "seqs (r # rs) = Seq r (seqs rs)"

definition Lit :: "string \<Rightarrow> regex" where
  "Lit w = seqs (map Chr w)"

text \<open>\<open>\s\<close> of Go's regexp syntax: tab, line feed, form feed, carriage return, space.\<close>

definition space_class :: string where
  "space_class = [CHR 0x09, CHR 0x0A, CHR 0x0C, CHR 0x0D, CHR '' '']"

definition digit_class :: string where
  "digit_class = ''0123456789''"

definition hex_class :: string where
  "hex_class = ''0123456789abcdef''"

text \<open>The group \<open>(-?[0-9]+(\.[0-9]+)?)\<close> shared by the start and end patterns.\<close>

definition numberRX :: regex where
  "numberRX = seqs [Opt (Chr CHR ''-''), PlusCls digit_class,
                    Opt (Seq (Chr CHR ''.'') (PlusCls digit_class))]"

definition ffmpegSilenceDetectPrefixRX :: regex where
  "ffmpegSilenceDetectPrefixRX =
     seqs [Lit ''[silencedetect'', Cls space_class, Chr CHR ''@'', Cls space_class,
           Lit ''0x'', PlusCls hex_class, Chr CHR '']'', PlusCls space_class]"

definition ffmpegSilenceDetectStartRX :: regex where
  "ffmpegSilenceDetectStartRX =
     seqs [Lit ''silence_start:'', Cls space_class, numberRX, EndOfText]"

definition ffmpegSilenceDetectEndRX :: regex where
  "ffmpegSilenceDetectEndRX =
     seqs [Lit ''silence_end:'', Cls space_class, numberRX]"

subsection \<open>Matching at offset 0, in the order of preference of a backtracking matcher\<close>

text \<open>
  \<open>star_rem cls s\<close> lists what is left of \<open>s\<close> after zero or more characters of the
  class, the longest run first (the operators of the source are all greedy).
\<close>

fun star_rem :: "string \<Rightarrow> string \<Rightarrow> string list" where
  "star_rem cls [] = [[]]"
| "star_rem cls (x # xs) =
     (if x \<in> set cls then star_rem cls xs @ [x # xs] else [x # xs])"

fun rems :: "regex \<Rightarrow> string \<Rightarrow> string list" where
  "rems (Chr c) s = (case s of [] \<Rightarrow> [] | x # xs \<Rightarrow> if x = c then [xs] else [])"
| "rems (Cls cls) s = (case s of [] \<Rightarrow> [] | x # xs \<Rightarrow> if x \<in> set cls then [xs] else [])"
| "rems (PlusCls cls) s =
     (case s of [] \<Rightarrow> [] | x # xs \<Rightarrow> if x \<in> set cls then star_rem cls xs else [])"
| "rems (Opt r) s = rems r s @ [s]"
| "rems (Seq r1 r2) s = concat (map (rems r2) (rems r1 s))"
| "rems Eps s = [s]"
| "rems EndOfText s = (if s = [] then [[]] else [])"

text \<open>\<open>Regexp.MatchString\<close> and \<open>Regexp.FindString\<close> for a pattern anchored by \<open>^\<close>.\<close>

definition MatchString :: "regex \<Rightarrow> string \<Rightarrow> bool" where
  "MatchString r s = (rems r s \<noteq> [])"

definition FindString :: "regex \<Rightarrow> string \<Rightarrow> string" where
  "FindString r s =
     (case rems r s of [] \<Rightarrow> [] | rest # _ \<Rightarrow> take (length s - length rest) s)"

subsection \<open>The classifier\<close>

datatype ffmpegSilenceDetect =
    ffmpegSilenceDetectEvent_unknown
  | ffmpegSilenceDetectEvent_start
  | ffmpegSilenceDetectEvent_end

definition parseSilenceDetectLog :: "string \<Rightarrow> ffmpegSilenceDetect" where
  "parseSilenceDetectLog line =
     (let prefix = FindString ffmpegSilenceDetectPrefixRX line in
      if prefix \<noteq> [] then
        (let withoutPrefix = drop (length prefix) line in
         if MatchString ffmpegSilenceDetectStartRX withoutPrefix
           then ffmpegSilenceDetectEvent_start
         else if MatchString ffmpegSilenceDetectEndRX withoutPrefix
           then ffmpegSilenceDetectEvent_end
         else ffmpegSilenceDetectEvent_unknown)
      else ffmpegSilenceDetectEvent_unknown)"

subsection \<open>Declarative reading of the patterns\<close>

text \<open>
  \<open>matches rx s r\<close>: the pattern \<open>rx\<close> matches a prefix of \<open>s\<close> and leaves \<open>r\<close>.
  This is the meaning of the patterns, independent of the order in which a matcher
  tries the alternatives.
\<close>

fun matches :: "regex \<Rightarrow> string \<Rightarrow> string \<Rightarrow> bool" where
  "matches (Chr c) s r = (s = c # r)"
| "matches (Cls cls) s r = (\<exists>x. x \<in> set cls \<and> s = x # r)"
| "matches (PlusCls cls) s r = (\<exists>m. m \<noteq> [] \<and> set m \<subseteq> set cls \<and> s = m @ r)"
| "matches (Opt a) s r = (matches a s r \<or> s = r)"
| "matches (Seq a b) s r = (\<exists>mid. matches a s mid \<and> matches b mid r)"
| "matches Eps s r = (s = r)"
| "matches EndOfText s r = (s = [] \<and> r = [])"


text \<open>The grammar of the three patterns, written out on strings.\<close>

definition tool_tag :: "string \<Rightarrow> bool" where
  "tool_tag p \<longleftrightarrow>
     (\<exists>w1 w2 h sp. p = ''[silencedetect'' @ [w1] @ ''@'' @ [w2] @ ''0x'' @ h @ '']'' @ sp
        \<and> w1 \<in> set space_class \<and> w2 \<in> set space_class
        \<and> h \<noteq> [] \<and> set h \<subseteq> set hex_class
        \<and> sp \<noteq> [] \<and> set sp \<subseteq> set space_class)"

definition decimal :: "string \<Rightarrow> bool" where
  "decimal n \<longleftrightarrow>
     (\<exists>sg ip fr. n = sg @ ip @ fr \<and> (sg = [] \<or> sg = ''-'')
        \<and> ip \<noteq> [] \<and> set ip \<subseteq> set digit_class
        \<and> (fr = [] \<or> (\<exists>f. fr = ''.'' @ f \<and> f \<noteq> [] \<and> set f \<subseteq> set digit_class)))"


definition silence_start_line :: "string \<Rightarrow> bool" where
  "silence_start_line l \<longleftrightarrow>
     (\<exists>p w n. tool_tag p \<and> w \<in> set space_class \<and> decimal n
        \<and> l = p @ ''silence_start:'' @ [w] @ n)"

definition silence_end_line :: "string \<Rightarrow> bool" where
  "silence_end_line l \<longleftrightarrow>
     (\<exists>p w n rest. tool_tag p \<and> w \<in> set space_class \<and> decimal n
        \<and> l = p @ ''silence_end:'' @ [w] @ n @ rest)"

text \<open>
  The classification as the specification words it: the end pattern is
  \<open>silence_end: <n>\<close>, alone or with a trailing duration clause (any text that ends in
  \<open>duration: <n>\<close>, which covers the tool's \<open>| silence_duration: <n>\<close>).
\<close>

definition duration_clause :: "string \<Rightarrow> bool" where
  "duration_clause d \<longleftrightarrow> (\<exists>pre m. decimal m \<and> d = pre @ ''duration: '' @ m)"

definition spec_silence_end_line :: "string \<Rightarrow> bool" where
  "spec_silence_end_line l \<longleftrightarrow>
     (\<exists>p w n d. tool_tag p \<and> w \<in> set space_class \<and> decimal n
        \<and> (d = [] \<or> duration_clause d)
        \<and> l = p @ ''silence_end:'' @ [w] @ n @ d)"

definition spec_classification :: "string \<Rightarrow> ffmpegSilenceDetect" where
  "spec_classification l =
     (if silence_start_line l then ffmpegSilenceDetectEvent_start
      else if spec_silence_end_line l then ffmpegSilenceDetectEvent_end
      else ffmpegSilenceDetectEvent_unknown)"


text \<open>The shape of a list of remainders left by a greedy run of white space.\<close>

definition star_shaped :: "string list \<Rightarrow> bool" where
  "star_shaped xs \<longleftrightarrow> xs = [] \<or> (\<exists>t. xs = star_rem space_class t)"


section \<open>Values shared by the workers of pkg/app\<close>

text \<open>
  A Go \<open>error\<close> value: \<open>io.EOF\<close> or an error carrying a message. A possibly nil
  \<open>error\<close> is a \<open>go_error option\<close>, \<open>None\<close> for nil.
\<close>

datatype go_error = io_EOF | errors_New string

text \<open>A zerolog event: level, message and the fields attached before \<open>Msg\<close>.\<close>

datatype level = DebugLevel | InfoLevel | WarnLevel | ErrorLevel | FatalLevel

datatype field = ErrF go_error | IntF string int | StrF string string

datatype log_line = Log level string "field list"

fun line_level :: "log_line \<Rightarrow> level" where
  "line_level (Log l m fs) = l"

fun line_msg :: "log_line \<Rightarrow> string" where
  "line_msg (Log l m fs) = m"

text \<open>\<open>time.Duration\<close> counts nanoseconds.\<close>

type_synonym Duration = int

definition Second :: Duration where
  "Second = 1000000000"

definition Minute :: Duration where
  "Minute = 60 * Second"

definition Hour :: Duration where
  "Hour = 60 * Minute"

section \<open>Device state and state store (package baby, as pkg/app uses it)\<close>

datatype stream_state = StreamState_Unknown | StreamState_Alive | StreamState_Unhealthy

datatype stream_request_state =
    StreamRequestState_NotRequested
  | StreamRequestState_Requested
  | StreamRequestState_RequestFailed

text \<open>
  Modelled from the spec: the device state record \<open>baby.State\<close> (package baby is not
  among the sources). Every field is optional, so that a value also serves as the
  delta of an update; \<open>IsStreamAlive\<close> is the setter the probe of pkg/app/player.go
  calls, \<open>StreamState\<close> the one the watchdog and the orchestrator use.
\<close>

record State =
  StreamState :: "stream_state option"
  StreamRequestState :: "stream_request_state option"
  IsStreamAlive :: "bool option"
  LocalStreamingInitiated :: "bool option"

definition NewState :: State where
  "NewState = \<lparr>StreamState = None, StreamRequestState = None,
               IsStreamAlive = None, LocalStreamingInitiated = None\<rparr>"

definition SetStreamState :: "stream_state \<Rightarrow> State \<Rightarrow> State" where
  "SetStreamState v st = st\<lparr>StreamState := Some v\<rparr>"

definition SetStreamRequestState :: "stream_request_state \<Rightarrow> State \<Rightarrow> State" where
  "SetStreamRequestState v st = st\<lparr>StreamRequestState := Some v\<rparr>"

definition SetIsStreamAlive :: "bool \<Rightarrow> State \<Rightarrow> State" where
  "SetIsStreamAlive v st = st\<lparr>IsStreamAlive := Some v\<rparr>"

text \<open>Modelled from the spec: the getters return the default of a field never set.\<close>

definition GetStreamState :: "State \<Rightarrow> stream_state" where
  "GetStreamState st = (case StreamState st of None \<Rightarrow> StreamState_Unknown | Some v \<Rightarrow> v)"

definition GetStreamRequestState :: "State \<Rightarrow> stream_request_state" where
  "GetStreamRequestState st =
     (case StreamRequestState st of None \<Rightarrow> StreamRequestState_NotRequested | Some v \<Rightarrow> v)"

text \<open>
  Modelled from the spec: an update is a partial merge, a field the delta does not
  set keeps its stored value.
\<close>

definition or_else :: "'a option \<Rightarrow> 'a option \<Rightarrow> 'a option" where
  "or_else new old = (case new of None \<Rightarrow> old | Some v \<Rightarrow> Some v)"

definition Merge :: "State \<Rightarrow> State \<Rightarrow> State" where
  "Merge st delta =
     \<lparr>StreamState = or_else (StreamState delta) (StreamState st),
      StreamRequestState = or_else (StreamRequestState delta) (StreamRequestState st),
      IsStreamAlive = or_else (IsStreamAlive delta) (IsStreamAlive st),
      LocalStreamingInitiated =
        or_else (LocalStreamingInitiated delta) (LocalStreamingInitiated st)\<rparr>"

text \<open>
  Modelled from the spec: \<open>baby.StateManager\<close>, a mapping from the device identifier to
  its record; \<open>GetBabyState\<close> returns the defaults for a device never updated.
\<close>

type_synonym StateManager = "string \<rightharpoonup> State"

definition GetBabyState :: "StateManager \<Rightarrow> string \<Rightarrow> State" where
  "GetBabyState mgr uid = (case mgr uid of None \<Rightarrow> NewState | Some st \<Rightarrow> st)"

definition Update :: "StateManager \<Rightarrow> string \<Rightarrow> State \<Rightarrow> StateManager" where
  "Update mgr uid delta = mgr(uid \<mapsto> Merge (GetBabyState mgr uid) delta)"

text \<open>
  Modelled from the spec: \<open>utils.LogTailer\<close>, the bounded buffer of the last lines read
  (package utils is not among the sources). \<open>Tail\<close> reads the lines of a pipe up to
  its end.
\<close>

record LogTailer =
  tail_capacity :: nat
  tail_lines :: "string list"

definition NewLogTailer :: "nat \<Rightarrow> LogTailer" where
  "NewLogTailer n = \<lparr>tail_capacity = n, tail_lines = []\<rparr>"

definition tail_push :: "LogTailer \<Rightarrow> string \<Rightarrow> LogTailer" where
  "tail_push t l =
     (let ls = tail_lines t @ [l]
      in t\<lparr>tail_lines := drop (length ls - tail_capacity t) ls\<rparr>)"

definition Tail :: "LogTailer \<Rightarrow> string list \<Rightarrow> LogTailer" where
  "Tail t ls = foldl tail_push t ls"

definition LogTailer_String :: "LogTailer \<Rightarrow> string" where
  "LogTailer_String t = concat (map (\<lambda>l. l @ [CHR 0x0A]) (tail_lines t))"


section \<open>Stream liveness probe (pkg/app/player.go, dummyPlayer)\<close>

text \<open>
  The probe is four goroutines around one external process: the waiter
  (\<open>cmd.Wait\<close>, then a send on \<open>exitedC\<close>), the tailer of standard error, the decoder
  of standard output, and the loop that selects on \<open>exitedC\<close>, \<open>ctx.Done()\<close> and
  \<open>decoderC\<close>. The state holds what they share; an event is one atomic step of one
  goroutine, from one blocking operation to the next, or one move of the environment
  (the process exits, the caller cancels, a read returns).
\<close>

datatype decoder_pc = DecHeader | DecTags | DecReturned

datatype main_pc = Selecting | AwaitTail int | Returned

record probe =
  proc :: "int option"
  waited :: bool
  exitedC :: bool
  exitingFlag :: bool
  tailed :: bool
  stderrC :: "LogTailer option"
  dec :: decoder_pc
  decoderC :: "go_error option"
  ctx_done :: bool
  main :: main_pc
  kills :: nat
  updates :: "(string \<times> State) list"
  logs :: "log_line list"

text \<open>
  \<open>proc\<close> is \<open>None\<close> while the process runs and \<open>Some c\<close> once it has ended, \<open>c\<close>
  being what \<open>ProcessState.ExitCode()\<close> returns: \<open>-1\<close> for a process ended by a
  signal. \<open>updates\<close> lists the calls of \<open>BabyStateManager.Update\<close>.
\<close>

datatype setup_failure = StderrPipeFails go_error | StdoutPipeFails go_error | StartFails go_error

text \<open>The part of \<open>dummyPlayer\<close> up to the goroutines: a failure ends the program.\<close>

definition started :: "string \<Rightarrow> probe" where
  "started url =
     \<lparr>proc = None, waited = False, exitedC = False, exitingFlag = False,
      tailed = False, stderrC = None, dec = DecHeader, decoderC = None,
      ctx_done = False, main = Selecting, kills = 0, updates = [],
      logs = [Log InfoLevel ''Player started'' [StrF ''url'' url]]\<rparr>"

definition dummyPlayer_start :: "string \<Rightarrow> setup_failure option \<Rightarrow> log_line + probe" where
  "dummyPlayer_start url failure =
     (case failure of
        Some (StderrPipeFails e) \<Rightarrow> Inl (Log FatalLevel ''Failed to prepare stderr pipe'' [ErrF e])
      | Some (StdoutPipeFails e) \<Rightarrow> Inl (Log FatalLevel ''Failed to prepare stdout pipe'' [ErrF e])
      | Some (StartFails e) \<Rightarrow> Inl (Log FatalLevel ''Unable to start'' [ErrF e])
      | None \<Rightarrow> Inr (started url))"

definition add_log :: "log_line \<Rightarrow> probe \<Rightarrow> probe" where
  "add_log l s = s\<lparr>logs := logs s @ [l]\<rparr>"

text \<open>
  \<open>cmd.Process.Kill()\<close>: a running process ends by the signal; on a process that has
  ended the call returns an error, which the source ignores.
\<close>

definition Kill :: "probe \<Rightarrow> probe" where
  "Kill s = s\<lparr>kills := Suc (kills s),
              proc := (case proc s of None \<Rightarrow> Some (- 1) | Some c \<Rightarrow> Some c)\<rparr>"

text \<open>The decoder goroutine: \<open>flv.NewDecoder\<close> returns \<open>err\<close>.\<close>

definition decoder_header :: "string \<Rightarrow> string \<Rightarrow> go_error option \<Rightarrow> probe \<Rightarrow> probe" where
  "decoder_header babyUID url err s =
     (case err of
        Some e \<Rightarrow>
          (if \<not> exitingFlag s then
             (add_log (if e = io_EOF then Log WarnLevel ''Closed pipe'' []
                       else Log WarnLevel ''Unable to decode'' [ErrF e]) s)
               \<lparr>decoderC := Some e, dec := DecReturned\<rparr>
           else s\<lparr>dec := DecReturned\<rparr>)
      | None \<Rightarrow>
          (add_log (Log InfoLevel ''Stream is alive'' [StrF ''url'' url])
            (add_log (Log DebugLevel ''Successfully decoded stream header'' []) s))
            \<lparr>updates := updates s @ [(babyUID, SetIsStreamAlive True NewState)],
             dec := DecTags\<rparr>)"

text \<open>One turn of the decoder's loop: \<open>dec.Decode\<close> returns \<open>err\<close>.\<close>

definition decoder_tag :: "go_error option \<Rightarrow> probe \<Rightarrow> probe" where
  "decoder_tag err s =
     (case err of
        Some e \<Rightarrow>
          (if \<not> exitingFlag s then
             (if e = io_EOF then add_log (Log WarnLevel ''Closed pipe'' []) s
              else (add_log (Log WarnLevel ''Failed to decode FLV tag'' [ErrF e]) s)
                     \<lparr>decoderC := Some e, dec := DecReturned\<rparr>)
           else s)
      | None \<Rightarrow> s)"

text \<open>The three cases of the select.\<close>

definition select_exited :: "probe \<Rightarrow> probe" where
  "select_exited s =
     (let s1 = s\<lparr>exitedC := False, exitingFlag := True\<rparr>;
          exitCode = (case proc s of None \<Rightarrow> - 1 | Some c \<Rightarrow> c)
      in if exitCode = - 1
         then (add_log (Log WarnLevel ''Player terminated'' []) s1)\<lparr>main := Returned\<rparr>
         else s1\<lparr>main := AwaitTail exitCode\<rparr>)"

definition receive_tail :: "int \<Rightarrow> LogTailer \<Rightarrow> probe \<Rightarrow> probe" where
  "receive_tail exitCode tailer s =
     (add_log (Log ErrorLevel ''Player exited''
                 [IntF ''code'' exitCode, StrF ''logtail'' (LogTailer_String tailer)]) s)
       \<lparr>stderrC := None, main := Returned\<rparr>"

definition select_ctx_done :: "probe \<Rightarrow> probe" where
  "select_ctx_done s =
     (if \<not> exitingFlag s
      then Kill (add_log (Log DebugLevel ''Cancel request received, killing the process'' [])
                   (s\<lparr>exitingFlag := True\<rparr>))
      else s)"

definition select_decoderC :: "probe \<Rightarrow> probe" where
  "select_decoderC s =
     Kill (add_log (Log DebugLevel ''Decoder failure, killing the process'' [])
             (s\<lparr>decoderC := None\<rparr>))"

datatype event =
    ProcessExits int
  | WaitReturns
  | TailDone "string list"
  | HeaderDecode "go_error option"
  | TagDecode "go_error option"
  | Cancel
  | SelectExited
  | ReceiveTail
  | SelectCtxDone
  | SelectDecoderC

text \<open>
  \<open>step\<close> is \<open>None\<close> where the event cannot happen: a channel is empty, a goroutine is
  elsewhere or has returned, the process has already ended.
\<close>

fun step :: "string \<Rightarrow> string \<Rightarrow> event \<Rightarrow> probe \<Rightarrow> probe option" where
  "step babyUID url (ProcessExits c) s =
     (if proc s = None then Some (s\<lparr>proc := Some c\<rparr>) else None)"
| "step babyUID url WaitReturns s =
     (if proc s \<noteq> None \<and> \<not> waited s
      then Some (s\<lparr>waited := True, exitedC := True\<rparr>) else None)"
| "step babyUID url (TailDone ls) s =
     (if \<not> tailed s
      then Some (s\<lparr>tailed := True, stderrC := Some (Tail (NewLogTailer 3) ls)\<rparr>) else None)"
| "step babyUID url (HeaderDecode err) s =
     (if dec s = DecHeader then Some (decoder_header babyUID url err s) else None)"
| "step babyUID url (TagDecode err) s =
     (if dec s = DecTags then Some (decoder_tag err s) else None)"
| "step babyUID url Cancel s = Some (s\<lparr>ctx_done := True\<rparr>)"
| "step babyUID url SelectExited s =
     (if main s = Selecting \<and> exitedC s then Some (select_exited s) else None)"
| "step babyUID url ReceiveTail s =
     (case main s of
        AwaitTail c \<Rightarrow>
          (case stderrC s of None \<Rightarrow> None | Some t \<Rightarrow> Some (receive_tail c t s))
      | _ \<Rightarrow> None)"
| "step babyUID url SelectCtxDone s =
     (if main s = Selecting \<and> ctx_done s then Some (select_ctx_done s) else None)"
| "step babyUID url SelectDecoderC s =
     (if main s = Selecting \<and> decoderC s \<noteq> None then Some (select_decoderC s) else None)"

fun run :: "string \<Rightarrow> string \<Rightarrow> event list \<Rightarrow> probe \<Rightarrow> probe option" where
  "run babyUID url [] s = Some s"
| "run babyUID url (e # es) s =
     (case step babyUID url e s of None \<Rightarrow> None | Some s' \<Rightarrow> run babyUID url es s')"

text \<open>The lines that report a failure of the probe, and the lines of the decoder.\<close>

definition failure_reports :: "log_line list \<Rightarrow> log_line list" where
  "failure_reports ls = filter (\<lambda>l. line_level l = ErrorLevel) ls"

definition decoder_warnings :: "log_line list \<Rightarrow> log_line list" where
  "decoder_warnings ls =
     filter (\<lambda>l. line_msg l \<in> {''Closed pipe'', ''Unable to decode'', ''Failed to decode FLV tag''}) ls"

text \<open>
  How a finished run has classified the exit code \<open>c\<close>: the code \<open>-1\<close> leaves the
  line of an expected termination and no failure report; any other code leaves one
  failure report, with the code and the tail of standard error, and no line of an
  expected termination.
\<close>

definition exit_classified :: "event list \<Rightarrow> int \<Rightarrow> log_line list \<Rightarrow> bool" where
  "exit_classified evs c ls \<longleftrightarrow>
     (c = - 1 \<longrightarrow>
        failure_reports ls = [] \<and> Log WarnLevel ''Player terminated'' [] \<in> set ls) \<and>
     (c \<noteq> - 1 \<longrightarrow>
        Log WarnLevel ''Player terminated'' [] \<notin> set ls \<and>
        (\<exists>err_lines. TailDone err_lines \<in> set evs \<and>
           failure_reports ls =
             [Log ErrorLevel ''Player exited''
                [IntF ''code'' c,
                 StrF ''logtail'' (LogTailer_String (Tail (NewLogTailer 3) err_lines))]]))"

text \<open>The invariant of the coordinating loop, over the events so far.\<close>

definition probe_inv :: "event list \<Rightarrow> probe \<Rightarrow> bool" where
  "probe_inv evs s \<longleftrightarrow>
     (exitedC s \<longrightarrow> proc s \<noteq> None) \<and>
     (\<forall>t. stderrC s = Some t \<longrightarrow>
        (\<exists>err_lines. TailDone err_lines \<in> set evs \<and> t = Tail (NewLogTailer 3) err_lines)) \<and>
     (case main s of
        Selecting \<Rightarrow>
          failure_reports (logs s) = [] \<and> Log WarnLevel ''Player terminated'' [] \<notin> set (logs s)
      | AwaitTail c \<Rightarrow>
          proc s = Some c \<and> c \<noteq> - 1 \<and> failure_reports (logs s) = []
          \<and> Log WarnLevel ''Player terminated'' [] \<notin> set (logs s)
      | Returned \<Rightarrow> (\<exists>c. proc s = Some c \<and> exit_classified evs c (logs s)))"

text \<open>The lines above debug level.\<close>

definition above_debug :: "log_line list \<Rightarrow> log_line list" where
  "above_debug ls = filter (\<lambda>l. line_level l \<noteq> DebugLevel) ls"


text \<open>The tail of standard error stays in its channel until the loop receives it.\<close>

definition tail_inv :: "event list \<Rightarrow> probe \<Rightarrow> bool" where
  "tail_inv evs s \<longleftrightarrow>
     ((\<exists>err_lines. TailDone err_lines \<in> set evs) \<and> main s \<noteq> Returned \<longrightarrow> stderrC s \<noteq> None)"


section \<open>Stream request orchestrator and watchdog (pkg/app, App.runWebsocket and App.runWatchDog)\<close>

record RTMPOpts =
  ListenAddr :: string
  PublicAddr :: string

record Opts =
  RTMP :: "RTMPOpts option"

text \<open>
  \<open>getLocalStreamURL\<close>: the replacer fills the template
  \<open>rtmp://{publicAddr}/local/{babyUid}\<close>; without RTMP options the URL is empty.
\<close>

definition getLocalStreamURL :: "Opts \<Rightarrow> string \<Rightarrow> string" where
  "getLocalStreamURL opts babyUID =
     (case RTMP opts of
        Some r \<Rightarrow> ''rtmp://'' @ PublicAddr r @ ''/local/'' @ babyUID
      | None \<Rightarrow> [])"

subsection \<open>runWebsocket\<close>

datatype Streaming_Status = Streaming_STARTED | Streaming_STOPPED

text \<open>
  What \<open>runWebsocket\<close> does on the control channel and the state store. The request to
  start or stop the local stream is the call of \<open>requestLocalStreaming\<close> with the
  device, the URL and the status.
\<close>

datatype ws_action =
    RegisterMessageHandler
  | SendRequest_GET_SENSOR_DATA
  | Subscribe
  | Unsubscribe
  | requestLocalStreaming string string Streaming_Status

definition initializeLocalStreaming :: "Opts \<Rightarrow> string \<Rightarrow> ws_action" where
  "initializeLocalStreaming opts babyUID =
     requestLocalStreaming babyUID (getLocalStreamURL opts babyUID) Streaming_STARTED"

text \<open>
  The callback given to \<open>Subscribe\<close>: it receives the device and the delta of an update
  and reads the current record of the managed device from the store.
\<close>

definition liveness_subscriber ::
  "Opts \<Rightarrow> string \<Rightarrow> StateManager \<Rightarrow> string \<Rightarrow> State \<Rightarrow> ws_action list" where
  "liveness_subscriber opts babyUID mgr updatedBabyUID stateUpdate =
     (if updatedBabyUID = babyUID \<and> StreamState stateUpdate \<noteq> None
         \<and> StreamState stateUpdate = Some StreamState_Unhealthy
      then
        (if GetStreamRequestState (GetBabyState mgr babyUID) \<noteq> StreamRequestState_RequestFailed
         then [initializeLocalStreaming opts babyUID]
         else [])
      else [])"

text \<open>The request made upon connection, after the subscription.\<close>

definition initial_streaming :: "Opts \<Rightarrow> string \<Rightarrow> StateManager \<Rightarrow> ws_action list" where
  "initial_streaming opts babyUID mgr =
     (let babyState = GetBabyState mgr babyUID in
      if GetStreamState babyState \<noteq> StreamState_Alive then
        (if GetStreamRequestState babyState \<noteq> StreamRequestState_Requested
            \<or> GetStreamState babyState = StreamState_Unhealthy
         then [initializeLocalStreaming opts babyUID]
         else [])
      else [])"

text \<open>\<open>runWebsocket\<close> up to the wait for the end of the connection, and its cleanup.\<close>

definition runWebsocket_connected :: "Opts \<Rightarrow> string \<Rightarrow> StateManager \<Rightarrow> ws_action list" where
  "runWebsocket_connected opts babyUID mgr =
     [RegisterMessageHandler, SendRequest_GET_SENSOR_DATA] @
     (case RTMP opts of
        Some r \<Rightarrow> Subscribe # initial_streaming opts babyUID mgr
      | None \<Rightarrow> [])"

definition runWebsocket_cleanup :: "Opts \<Rightarrow> string \<Rightarrow> ws_action list" where
  "runWebsocket_cleanup opts babyUID =
     (case RTMP opts of
        Some r \<Rightarrow>
          [Unsubscribe,
           requestLocalStreaming babyUID (getLocalStreamURL opts babyUID) Streaming_STOPPED]
      | None \<Rightarrow> [])"

text \<open>
  The condition of the initial request as the specification words it: the liveness is
  not already alive and a request is not already pending.
\<close>

definition spec_initial_request :: "State \<Rightarrow> bool" where
  "spec_initial_request babyState \<longleftrightarrow>
     GetStreamState babyState \<noteq> StreamState_Alive
     \<and> GetStreamRequestState babyState \<noteq> StreamRequestState_Requested"

subsection \<open>runWatchDog\<close>

record player_Opts =
  BabyUID :: string
  URL :: string

text \<open>
  What the watchdog does: log lines, the call of the probe \<open>player.Run\<close> with its
  options and a context, updates of the state store, and \<open>timer.Reset\<close>. A context is
  named by a string.
\<close>

datatype wd_action =
    WdLog log_line
  | player_Run player_Opts string
  | StateUpdate string State
  | timer_Reset Duration

record watchdog =
  wd_mgr :: StateManager
  timer_pending :: "Duration option"
  timer_C :: bool
  wd_cancelled :: bool
  wd_returned :: bool
  wd_trace :: "wd_action list"

text \<open>\<open>time.NewTimer(0)\<close> and the entry of the loop.\<close>

definition watchdog_start :: "StateManager \<Rightarrow> watchdog" where
  "watchdog_start mgr =
     \<lparr>wd_mgr = mgr, timer_pending = Some 0, timer_C = False,
      wd_cancelled = False, wd_returned = False, wd_trace = []\<rparr>"

text \<open>
  The case \<open><-timer.C\<close> of the select. The call of the probe blocks; \<open>deltas\<close> are the
  updates the store of the device receives while the probe runs (the probe's own
  report that the stream is alive among them), and \<open>cancelled\<close> tells whether the
  context was cancelled meanwhile.
\<close>

definition watchdog_iteration ::
  "Opts \<Rightarrow> string \<Rightarrow> string \<Rightarrow> State list \<Rightarrow> bool \<Rightarrow> watchdog \<Rightarrow> watchdog" where
  "watchdog_iteration opts babyUID ctx deltas cancelled w =
     (let mgr1 = foldl (\<lambda>m d. Update m babyUID d) (wd_mgr w) deltas;
          mgr2 = Update mgr1 babyUID (SetStreamState StreamState_Unhealthy NewState)
      in w\<lparr>wd_mgr := mgr2,
           wd_cancelled := (wd_cancelled w \<or> cancelled),
           timer_pending := Some (5 * Second),
           wd_trace := wd_trace w @
             [WdLog (Log DebugLevel ''Starting local stream watch dog''
                       [StrF ''baby_uid'' babyUID]),
              player_Run \<lparr>BabyUID = babyUID, URL = getLocalStreamURL opts babyUID\<rparr> ctx,
              StateUpdate babyUID (SetStreamState StreamState_Unhealthy NewState)] @
             (if GetStreamRequestState (GetBabyState mgr2 babyUID)
                   = StreamRequestState_RequestFailed
              then [WdLog (Log ErrorLevel ''Stream is dead and we failed to request it''
                             [StrF ''baby_uid'' babyUID])]
              else []) @
             [timer_Reset (5 * Second)]\<rparr>)"

datatype wd_event =
    TimerFires
  | CtxCancelled
  | SelectTimer "State list" bool
  | SelectDone

text \<open>
  \<open>wd_step\<close> is \<open>None\<close> where the event cannot happen: no timer is pending, the channel
  of the select is not ready, or the watchdog has returned.
\<close>

fun wd_step :: "Opts \<Rightarrow> string \<Rightarrow> string \<Rightarrow> wd_event \<Rightarrow> watchdog \<Rightarrow> watchdog option" where
  "wd_step opts babyUID ctx TimerFires w =
     (if timer_pending w \<noteq> None
      then Some (w\<lparr>timer_pending := None, timer_C := True\<rparr>) else None)"
| "wd_step opts babyUID ctx CtxCancelled w = Some (w\<lparr>wd_cancelled := True\<rparr>)"
| "wd_step opts babyUID ctx (SelectTimer deltas cancelled) w =
     (if \<not> wd_returned w \<and> timer_C w
      then Some (watchdog_iteration opts babyUID ctx deltas cancelled (w\<lparr>timer_C := False\<rparr>))
      else None)"
| "wd_step opts babyUID ctx SelectDone w =
     (if \<not> wd_returned w \<and> wd_cancelled w
      then Some (w\<lparr>wd_returned := True,
                   wd_trace := wd_trace w @
                     [WdLog (Log DebugLevel ''Terminating watchdog''
                               [StrF ''baby_uid'' babyUID])]\<rparr>)
      else None)"

fun wd_run ::
  "Opts \<Rightarrow> string \<Rightarrow> string \<Rightarrow> wd_event list \<Rightarrow> watchdog \<Rightarrow> watchdog option" where
  "wd_run opts babyUID ctx [] w = Some w"
| "wd_run opts babyUID ctx (e # es) w =
     (case wd_step opts babyUID ctx e w of
        None \<Rightarrow> None
      | Some w' \<Rightarrow> wd_run opts babyUID ctx es w')"

text \<open>The trace without the log lines, and the number of turns of the loop.\<close>

fun is_WdLog :: "wd_action \<Rightarrow> bool" where
  "is_WdLog (WdLog l) = True"
| "is_WdLog a = False"

definition wd_schedule :: "wd_action list \<Rightarrow> wd_action list" where
  "wd_schedule tr = filter (\<lambda>a. \<not> is_WdLog a) tr"

fun is_SelectTimer :: "wd_event \<Rightarrow> bool" where
  "is_SelectTimer (SelectTimer deltas cancelled) = True"
| "is_SelectTimer e = False"

definition probe_invocations :: "wd_event list \<Rightarrow> nat" where
  "probe_invocations evs = length (filter is_SelectTimer evs)"


section \<open>Supervised stream processor (pkg/app, App.handleBaby and App.runStreamProcess)\<close>

subsection \<open>The policy handed to the supervisor\<close>

record PerseverenceOpts =
  RunnerID :: string
  ResetThreshold :: Duration
  Cooldown :: "Duration list"

text \<open>The options \<open>handleBaby\<close> builds for the stream processor of a device.\<close>

definition stream_processor_opts :: "string \<Rightarrow> PerseverenceOpts" where
  "stream_processor_opts babyUID =
     \<lparr>RunnerID = ''stream-processor-'' @ babyUID,
      ResetThreshold = 2 * Second,
      Cooldown = [2 * Second, 30 * Second, 2 * Minute, 15 * Minute, 1 * Hour]\<rparr>"

text \<open>
  Modelled from the spec: \<open>utils.RunWithPerseverance\<close> (package utils is not among the
  sources). A run is given by how long it lasted and whether the task reported a
  failure. A run that lasts at least \<open>ResetThreshold\<close> resets the ordinal to 1 for the
  next run, any other run increments it. After a run that fails before
  \<open>ResetThreshold\<close> the supervisor waits \<open>Cooldown[min(ordinal - 1, len - 1)]\<close>; the
  specification gives no wait for the other runs.
\<close>

record run_outcome =
  lasted :: Duration
  failed :: bool

definition next_ordinal :: "PerseverenceOpts \<Rightarrow> nat \<Rightarrow> run_outcome \<Rightarrow> nat" where
  "next_ordinal opts ordinal r = (if ResetThreshold opts \<le> lasted r then 1 else ordinal + 1)"

definition cooldown_wait :: "PerseverenceOpts \<Rightarrow> nat \<Rightarrow> run_outcome \<Rightarrow> Duration option" where
  "cooldown_wait opts ordinal r =
     (if failed r \<and> lasted r < ResetThreshold opts \<and> Cooldown opts \<noteq> []
      then Some (Cooldown opts ! min (ordinal - 1) (length (Cooldown opts) - 1))
      else None)"

text \<open>The ordinal each run receives and the wait that follows it.\<close>

fun RunWithPerseverance ::
  "PerseverenceOpts \<Rightarrow> nat \<Rightarrow> run_outcome list \<Rightarrow> (nat \<times> Duration option) list" where
  "RunWithPerseverance opts ordinal [] = []"
| "RunWithPerseverance opts ordinal (r # rs) =
     (ordinal, cooldown_wait opts ordinal r)
       # RunWithPerseverance opts (next_ordinal opts ordinal r) rs"

definition rapid_failure :: "PerseverenceOpts \<Rightarrow> run_outcome \<Rightarrow> bool" where
  "rapid_failure opts r \<longleftrightarrow> failed r \<and> lasted r < ResetThreshold opts"

subsection \<open>runStreamProcess\<close>

text \<open>
  What a run of \<open>runStreamProcess\<close> does besides waiting: log lines, the call of
  \<open>attempt.Fail\<close> with a possibly nil error, the kill of the process, and the deferred
  close of the log file.
\<close>

datatype sp_action =
    MaybeAuthorize bool
  | SpLog log_line
  | attempt_Fail "go_error option"
  | Process_Kill
  | logFile_Close

text \<open>
  The select: \<open>done\<close> delivers what \<open>cmd.Wait\<close> returned, or the attempt is cancelled
  first.
\<close>

datatype sp_select = ProcessDone "go_error option" | AttemptDone

record sp_env =
  create_error :: "go_error option"
  start_error :: "go_error option"
  selected :: sp_select
  kill_error :: "go_error option"

text \<open>The select of both versions of \<open>runStreamProcess\<close>.\<close>

definition stream_process_select :: "sp_select \<Rightarrow> go_error option \<Rightarrow> sp_action list" where
  "stream_process_select sel killErr =
     (case sel of
        ProcessDone err \<Rightarrow>
          (case err of
             Some e \<Rightarrow>
               [SpLog (Log ErrorLevel ''Stream processor exited'' [ErrF e]),
                attempt_Fail err]
           | None \<Rightarrow>
               [SpLog (Log WarnLevel ''Stream processor exited with status 0'' []),
                attempt_Fail (Some (errors_New ''Stream processor exited with status 0''))])
      | AttemptDone \<Rightarrow>
          SpLog (Log InfoLevel ''Terminating stream processor'' []) # Process_Kill #
          (case killErr of
             Some e \<Rightarrow> [SpLog (Log ErrorLevel ''Unable to kill process'' [ErrF e])]
           | None \<Rightarrow> []))"

text \<open>
  \<open>runStreamProcess\<close> of src/pkg/app/app.go: \<open>Inl\<close> is the fatal log line that ends the
  program, \<open>Inr\<close> the actions of a run that returns. \<open>try\<close> is \<open>attempt.GetTry()\<close>.
\<close>

definition runStreamProcess ::
  "nat \<Rightarrow> string \<Rightarrow> string \<Rightarrow> sp_env \<Rightarrow> log_line + sp_action list" where
  "runStreamProcess try cmd logFilename env =
     (case create_error env of
        Some e \<Rightarrow> Inl (Log FatalLevel ''Unable to create log file''
                         [StrF ''filename'' logFilename, ErrF e])
      | None \<Rightarrow>
          (case start_error env of
             Some e \<Rightarrow> Inl (Log FatalLevel ''Unable to start stream processor'' [ErrF e])
           | None \<Rightarrow>
               Inr ([MaybeAuthorize (1 < try),
                     SpLog (Log InfoLevel ''Starting stream processor''
                              [StrF ''cmd'' cmd, StrF ''logfile'' logFilename])]
                    @ stream_process_select (selected env) (kill_error env)
                    @ [logFile_Close])))"

text \<open>
  \<open>runStreamProcess\<close> of the later version (src/unnamed/part_000): the same without the
  authorization.
\<close>

definition runStreamProcess_named ::
  "string \<Rightarrow> string \<Rightarrow> sp_env \<Rightarrow> log_line + sp_action list" where
  "runStreamProcess_named cmd logFilename env =
     (case create_error env of
        Some e \<Rightarrow> Inl (Log FatalLevel ''Unable to create log file''
                         [StrF ''filename'' logFilename, ErrF e])
      | None \<Rightarrow>
          (case start_error env of
             Some e \<Rightarrow> Inl (Log FatalLevel ''Unable to start stream processor'' [ErrF e])
           | None \<Rightarrow>
               Inr ([SpLog (Log InfoLevel ''Starting stream processor''
                              [StrF ''cmd'' cmd, StrF ''logfile'' logFilename])]
                    @ stream_process_select (selected env) (kill_error env)
                    @ [logFile_Close])))"

fun fail_calls :: "sp_action list \<Rightarrow> go_error option list" where
  "fail_calls [] = []"
| "fail_calls (attempt_Fail e # as) = e # fail_calls as"
| "fail_calls (a # as) = fail_calls as"


section \<open>Log classifier: proofs\<close>

lemma star_rem_iff:
  "r \<in> set (star_rem cls s) \<longleftrightarrow> (\<exists>m. set m \<subseteq> set cls \<and> s = m @ r)"
proof (induction s)
  case Nil
  then show ?case by auto
next
  case (Cons x xs)
  show ?case
  proof (cases "x \<in> set cls")
    case True
    have "(\<exists>m. set m \<subseteq> set cls \<and> x # xs = m @ r) \<longleftrightarrow>
          (r = x # xs \<or> (\<exists>m. set m \<subseteq> set cls \<and> xs = m @ r))"
    proof
      assume "\<exists>m. set m \<subseteq> set cls \<and> x # xs = m @ r"
      then obtain m where m: "set m \<subseteq> set cls" "x # xs = m @ r" by blast
      show "r = x # xs \<or> (\<exists>m. set m \<subseteq> set cls \<and> xs = m @ r)"
      proof (cases m)
        case Nil
        with m show ?thesis by simp
      next
        case (Cons y ys)
        with m have "set ys \<subseteq> set cls \<and> xs = ys @ r" by simp
        then show ?thesis by blast
      qed
    next
      assume "r = x # xs \<or> (\<exists>m. set m \<subseteq> set cls \<and> xs = m @ r)"
      then show "\<exists>m. set m \<subseteq> set cls \<and> x # xs = m @ r"
      proof
        assume "r = x # xs"
        then have "set [] \<subseteq> set cls \<and> x # xs = [] @ r" by simp
        then show ?thesis by blast
      next
        assume "\<exists>m. set m \<subseteq> set cls \<and> xs = m @ r"
        then obtain m where "set m \<subseteq> set cls" "xs = m @ r" by blast
        with True have "set (x # m) \<subseteq> set cls \<and> x # xs = (x # m) @ r" by simp
        then show ?thesis by blast
      qed
    qed
    with True Cons show ?thesis by auto
  next
    case False
    have "(\<exists>m. set m \<subseteq> set cls \<and> x # xs = m @ r) \<longleftrightarrow> r = x # xs"
    proof
      assume "\<exists>m. set m \<subseteq> set cls \<and> x # xs = m @ r"
      then obtain m where m: "set m \<subseteq> set cls" "x # xs = m @ r" by blast
      with False show "r = x # xs" by (cases m) auto
    next
      assume "r = x # xs"
      then have "set [] \<subseteq> set cls \<and> x # xs = [] @ r" by simp
      then show "\<exists>m. set m \<subseteq> set cls \<and> x # xs = m @ r" by blast
    qed
    with False show ?thesis by simp
  qed
qed

lemma plus_rem_iff:
  "r \<in> set (rems (PlusCls cls) s) \<longleftrightarrow> (\<exists>m. m \<noteq> [] \<and> set m \<subseteq> set cls \<and> s = m @ r)"
proof (cases s)
  case Nil
  then show ?thesis by simp
next
  case (Cons x xs)
  show ?thesis
  proof
    assume "r \<in> set (rems (PlusCls cls) s)"
    with Cons have x: "x \<in> set cls" and "r \<in> set (star_rem cls xs)"
      by (auto split: if_splits)
    then obtain m where "set m \<subseteq> set cls" "xs = m @ r" using star_rem_iff by blast
    with x Cons have "x # m \<noteq> [] \<and> set (x # m) \<subseteq> set cls \<and> s = (x # m) @ r" by simp
    then show "\<exists>m. m \<noteq> [] \<and> set m \<subseteq> set cls \<and> s = m @ r" by blast
  next
    assume "\<exists>m. m \<noteq> [] \<and> set m \<subseteq> set cls \<and> s = m @ r"
    then obtain m where m: "m \<noteq> []" "set m \<subseteq> set cls" "s = m @ r" by blast
    then obtain y ys where ys: "m = y # ys" by (cases m) auto
    with m Cons have "x = y" "xs = ys @ r" "set ys \<subseteq> set cls" "x \<in> set cls" by auto
    then have "r \<in> set (star_rem cls xs)" using star_rem_iff by blast
    with \<open>x \<in> set cls\<close> Cons show "r \<in> set (rems (PlusCls cls) s)" by simp
  qed
qed

lemma rems_iff_matches: "r \<in> set (rems rx s) \<longleftrightarrow> matches rx s r"
proof (induction rx arbitrary: s r)
  case (PlusCls cls)
  show ?case using plus_rem_iff by simp
qed (auto split: list.splits)


lemma matches_Lit: "matches (seqs (map Chr w)) s r \<longleftrightarrow> s = w @ r"
  by (induction w arbitrary: s) auto

lemma matches_prefix:
  "matches ffmpegSilenceDetectPrefixRX s r \<longleftrightarrow> (\<exists>p. tool_tag p \<and> s = p @ r)"
  unfolding ffmpegSilenceDetectPrefixRX_def tool_tag_def Lit_def
  apply auto
   apply blast
  apply blast
  done

lemma matches_number:
  "matches numberRX s r \<longleftrightarrow> (\<exists>n. decimal n \<and> s = n @ r)"
proof
  assume "matches numberRX s r"
  then obtain m1 m2 where
    a: "matches (Opt (Chr CHR ''-'')) s m1" and
    b: "matches (PlusCls digit_class) m1 m2" and
    c: "matches (Opt (Seq (Chr CHR ''.'') (PlusCls digit_class))) m2 r"
    unfolding numberRX_def by auto
  from a have "s = ''-'' @ m1 \<or> s = [] @ m1" by auto
  then obtain sg where sg: "s = sg @ m1" "sg = [] \<or> sg = ''-''" by blast
  from b obtain ip where ip: "m1 = ip @ m2" "ip \<noteq> []" "set ip \<subseteq> set digit_class"
    by auto
  from c have "m2 = [] @ r \<or> (\<exists>f. m2 = (''.'' @ f) @ r \<and> f \<noteq> [] \<and> set f \<subseteq> set digit_class)"
    by auto
  then obtain fr where fr: "m2 = fr @ r"
    "fr = [] \<or> (\<exists>f. fr = ''.'' @ f \<and> f \<noteq> [] \<and> set f \<subseteq> set digit_class)"
    by blast
  have "decimal (sg @ ip @ fr)"
    unfolding decimal_def using sg(2) ip(2,3) fr(2) by blast
  moreover have "s = (sg @ ip @ fr) @ r" using sg(1) ip(1) fr(1) by simp
  ultimately show "\<exists>n. decimal n \<and> s = n @ r" by blast
next
  assume "\<exists>n. decimal n \<and> s = n @ r"
  then obtain n where n: "decimal n" "s = n @ r" by blast
  then obtain sg ip fr where n': "n = sg @ ip @ fr" and sg: "sg = [] \<or> sg = ''-''"
    and ip: "ip \<noteq> []" "set ip \<subseteq> set digit_class"
    and fr: "fr = [] \<or> (\<exists>f. fr = ''.'' @ f \<and> f \<noteq> [] \<and> set f \<subseteq> set digit_class)"
    unfolding decimal_def by blast
  have s: "s = sg @ ip @ fr @ r" using n(2) n' by simp
  have a: "matches (Opt (Chr CHR ''-'')) s (ip @ fr @ r)" using s sg by auto
  have b: "matches (PlusCls digit_class) (ip @ fr @ r) (fr @ r)" using ip by auto
  have c: "matches (Opt (Seq (Chr CHR ''.'') (PlusCls digit_class))) (fr @ r) r"
    using fr by auto
  show "matches numberRX s r"
    unfolding numberRX_def seqs.simps matches.simps(5,6) using a b c by blast
qed

lemma matches_start:
  "matches ffmpegSilenceDetectStartRX s r \<longleftrightarrow>
     r = [] \<and> (\<exists>w n. s = ''silence_start:'' @ [w] @ n \<and> w \<in> set space_class \<and> decimal n)"
  unfolding ffmpegSilenceDetectStartRX_def Lit_def
  by (auto simp: matches_number)

lemma matches_end:
  "matches ffmpegSilenceDetectEndRX s r \<longleftrightarrow>
     (\<exists>w n. s = ''silence_end:'' @ [w] @ n @ r \<and> w \<in> set space_class \<and> decimal n)"
  unfolding ffmpegSilenceDetectEndRX_def Lit_def
  by (auto simp: matches_number)


lemma star_rem_hd:
  "star_rem cls s \<noteq> [] \<and> hd (star_rem cls s) = dropWhile (\<lambda>x. x \<in> set cls) s"
  by (induction s) auto

lemma star_rem_unique:
  "r \<in> set (star_rem cls s) \<Longrightarrow> r = [] \<or> hd r \<notin> set cls
     \<Longrightarrow> r = dropWhile (\<lambda>x. x \<in> set cls) s"
  by (induction s) (auto split: if_splits)

lemma concat_star_rem:
  "(\<And>x xs. x \<in> set cls \<Longrightarrow> f (x # xs) = [])
     \<Longrightarrow> concat (map f (star_rem cls s)) = f (dropWhile (\<lambda>x. x \<in> set cls) s)"
  by (induction s) auto

lemma concat_map_Eps: "concat (map (rems Eps) xs) = xs"
  by (induction xs) auto

lemma rems_Seq_Eps: "rems (Seq r Eps) s = rems r s"
  by (simp add: concat_map_Eps)

lemma rems_Eps_Seq: "rems (Seq Eps r) s = rems r s"
  by simp

lemma concat_map_concat:
  "concat (map g (concat (map f xs))) = concat (map (\<lambda>x. concat (map g (f x))) xs)"
  by (induction xs) auto

lemma rems_Seq_fun: "rems (Seq b c) = (\<lambda>x. concat (map (rems c) (rems b x)))"
  by (rule ext) simp

lemma rems_Seq_Eps_fun: "rems (Seq r Eps) = rems r"
  by (rule ext) (simp add: concat_map_Eps)

lemma rems_Seq_assoc: "rems (Seq (Seq a b) c) s = rems (Seq a (Seq b c)) s"
  by (simp add: concat_map_concat rems_Seq_fun)

lemma rems_Seq_Chr:
  "rems (Seq (Chr c) r) s = (case s of [] \<Rightarrow> [] | x # xs \<Rightarrow> if x = c then rems r xs else [])"
  by (simp split: list.splits)

lemma rems_Seq_Cls:
  "rems (Seq (Cls cls) r) s =
     (case s of [] \<Rightarrow> [] | x # xs \<Rightarrow> if x \<in> set cls then rems r xs else [])"
  by (simp split: list.splits)

lemma rems_Seq_PlusCls:
  assumes "\<And>x xs. x \<in> set cls \<Longrightarrow> rems r (x # xs) = []"
  shows "rems (Seq (PlusCls cls) r) s =
     (case s of [] \<Rightarrow> []
      | x # xs \<Rightarrow> if x \<in> set cls then rems r (dropWhile (\<lambda>x. x \<in> set cls) xs) else [])"
  using concat_star_rem[of cls "rems r", OF assms]
  by (simp split: list.splits)

lemma rems_tail_shape:
  "star_shaped (rems (seqs [PlusCls hex_class, Chr CHR '']'', PlusCls space_class]) u)"
proof -
  let ?r = "Seq (Chr CHR '']'') (PlusCls space_class)"
  have a: "\<And>x xs. x \<in> set hex_class \<Longrightarrow> rems ?r (x # xs) = []"
    by (auto simp: hex_class_def)
  have b: "star_shaped (rems ?r v)" for v
    unfolding star_shaped_def by (auto split: list.splits)
  have "rems (seqs [PlusCls hex_class, Chr CHR '']'', PlusCls space_class]) u =
        rems (Seq (PlusCls hex_class) ?r) u"
    by (simp only: seqs.simps rems_Seq_fun concat_map_Eps)
  also have "\<dots> = (case u of [] \<Rightarrow> []
      | x # xs \<Rightarrow> if x \<in> set hex_class
                  then rems ?r (dropWhile (\<lambda>x. x \<in> set hex_class) xs) else [])"
    by (rule rems_Seq_PlusCls[OF a])
  also have "star_shaped \<dots>"
    using b[unfolded star_shaped_def] unfolding star_shaped_def
    by (simp del: rems.simps split: list.splits)
  finally show ?thesis .
qed

lemma rems_prefix_shape: "star_shaped (rems ffmpegSilenceDetectPrefixRX s)"
proof -
  define tl3 where "tl3 = seqs [PlusCls hex_class, Chr CHR '']'', PlusCls space_class]"
  have h: "\<And>u. star_shaped (rems tl3 u)"
    unfolding tl3_def by (rule rems_tail_shape)
  have e: "ffmpegSilenceDetectPrefixRX =
      foldr Seq [Lit ''[silencedetect'', Cls space_class, Chr CHR ''@'', Cls space_class,
           Lit ''0x''] tl3"
    unfolding ffmpegSilenceDetectPrefixRX_def tl3_def by simp
  have n: "star_shaped []" by (simp add: star_shaped_def)
  show ?thesis
    unfolding e Lit_def
    using h n
    by (auto simp del: rems.simps
        simp add: rems_Seq_assoc rems_Seq_Eps rems_Eps_Seq rems_Seq_Chr rems_Seq_Cls
        split: list.splits)
qed


lemma tool_tag_nonempty: "tool_tag p \<Longrightarrow> p \<noteq> []"
  unfolding tool_tag_def by auto

lemma first_rem:
  assumes "tool_tag p" and "rest = [] \<or> hd rest \<notin> set space_class"
  shows "\<exists>rs. rems ffmpegSilenceDetectPrefixRX (p @ rest) = rest # rs"
proof -
  let ?xs = "rems ffmpegSilenceDetectPrefixRX (p @ rest)"
  have m: "rest \<in> set ?xs"
    using assms(1) matches_prefix rems_iff_matches by blast
  then have "?xs \<noteq> []" by auto
  with rems_prefix_shape[of "p @ rest"] obtain t where t: "?xs = star_rem space_class t"
    unfolding star_shaped_def by blast
  have "rest = dropWhile (\<lambda>x. x \<in> set space_class) t"
    using star_rem_unique[of rest space_class t] m t assms(2) by simp
  then have "hd ?xs = rest" using star_rem_hd[of space_class t] t by simp
  with \<open>?xs \<noteq> []\<close> show ?thesis by (cases ?xs) auto
qed

lemma parse_no_prefix:
  "rems ffmpegSilenceDetectPrefixRX l = [] \<Longrightarrow>
     parseSilenceDetectLog l = ffmpegSilenceDetectEvent_unknown"
  by (simp add: parseSilenceDetectLog_def FindString_def)

lemma parse_with_prefix:
  assumes "rems ffmpegSilenceDetectPrefixRX l = r # rs"
  shows "parseSilenceDetectLog l =
     (if MatchString ffmpegSilenceDetectStartRX r then ffmpegSilenceDetectEvent_start
      else if MatchString ffmpegSilenceDetectEndRX r then ffmpegSilenceDetectEvent_end
      else ffmpegSilenceDetectEvent_unknown)"
proof -
  have "r \<in> set (rems ffmpegSilenceDetectPrefixRX l)" using assms by simp
  then obtain p where p: "tool_tag p" "l = p @ r"
    using matches_prefix rems_iff_matches by blast
  then have f: "FindString ffmpegSilenceDetectPrefixRX l = p"
    using assms by (simp add: FindString_def)
  show ?thesis
    unfolding parseSilenceDetectLog_def f using p tool_tag_nonempty[of p]
    by (simp add: Let_def)
qed

lemma MatchString_iff: "MatchString rx s \<longleftrightarrow> (\<exists>r. matches rx s r)"
proof -
  have "rems rx s \<noteq> [] \<longleftrightarrow> (\<exists>r. r \<in> set (rems rx s))"
    by (cases "rems rx s") auto
  then show ?thesis unfolding MatchString_def using rems_iff_matches by simp
qed

lemma space_class_s: "CHR ''s'' \<notin> set space_class"
  by (simp add: space_class_def)

lemma parse_start_iff:
  "parseSilenceDetectLog l = ffmpegSilenceDetectEvent_start \<longleftrightarrow> silence_start_line l"
proof
  assume a: "parseSilenceDetectLog l = ffmpegSilenceDetectEvent_start"
  then obtain r rs where r: "rems ffmpegSilenceDetectPrefixRX l = r # rs"
    using parse_no_prefix[of l] by (cases "rems ffmpegSilenceDetectPrefixRX l") auto
  then have "r \<in> set (rems ffmpegSilenceDetectPrefixRX l)" by simp
  then obtain p where p: "tool_tag p" "l = p @ r"
    using matches_prefix rems_iff_matches by blast
  from a r have "MatchString ffmpegSilenceDetectStartRX r"
    using parse_with_prefix[OF r] by (auto split: if_splits)
  then obtain w n where "r = ''silence_start:'' @ [w] @ n" "w \<in> set space_class" "decimal n"
    unfolding MatchString_iff matches_start by blast
  with p show "silence_start_line l" unfolding silence_start_line_def by blast
next
  assume "silence_start_line l"
  then obtain p w n where p: "tool_tag p" "w \<in> set space_class" "decimal n"
    "l = p @ ''silence_start:'' @ [w] @ n"
    unfolding silence_start_line_def by blast
  let ?r = "''silence_start:'' @ [w] @ n"
  have "?r = [] \<or> hd ?r \<notin> set space_class" using space_class_s by simp
  from first_rem[OF p(1) this] obtain rs where
    r: "rems ffmpegSilenceDetectPrefixRX l = ?r # rs" using p(4) by auto
  have "matches ffmpegSilenceDetectStartRX ?r []"
    unfolding matches_start using p(2,3) by blast
  then have "MatchString ffmpegSilenceDetectStartRX ?r"
    unfolding MatchString_iff by blast
  then show "parseSilenceDetectLog l = ffmpegSilenceDetectEvent_start"
    using parse_with_prefix[OF r] by simp
qed

lemma parse_end_iff:
  "parseSilenceDetectLog l = ffmpegSilenceDetectEvent_end \<longleftrightarrow> silence_end_line l"
proof
  assume a: "parseSilenceDetectLog l = ffmpegSilenceDetectEvent_end"
  then obtain r rs where r: "rems ffmpegSilenceDetectPrefixRX l = r # rs"
    using parse_no_prefix[of l] by (cases "rems ffmpegSilenceDetectPrefixRX l") auto
  then have "r \<in> set (rems ffmpegSilenceDetectPrefixRX l)" by simp
  then obtain p where p: "tool_tag p" "l = p @ r"
    using matches_prefix rems_iff_matches by blast
  from a r have "MatchString ffmpegSilenceDetectEndRX r"
    using parse_with_prefix[OF r] by (auto split: if_splits)
  then obtain w n rest where
    "r = ''silence_end:'' @ [w] @ n @ rest" "w \<in> set space_class" "decimal n"
    unfolding MatchString_iff matches_end by blast
  with p show "silence_end_line l" unfolding silence_end_line_def by blast
next
  assume "silence_end_line l"
  then obtain p w n rest where p: "tool_tag p" "w \<in> set space_class" "decimal n"
    "l = p @ ''silence_end:'' @ [w] @ n @ rest"
    unfolding silence_end_line_def by blast
  let ?r = "''silence_end:'' @ [w] @ n @ rest"
  have "?r = [] \<or> hd ?r \<notin> set space_class" using space_class_s by simp
  from first_rem[OF p(1) this] obtain rs where
    r: "rems ffmpegSilenceDetectPrefixRX l = ?r # rs" using p(4) by auto
  have "matches ffmpegSilenceDetectEndRX ?r rest"
    unfolding matches_end using p(2,3) by blast
  then have e: "MatchString ffmpegSilenceDetectEndRX ?r"
    unfolding MatchString_iff by blast
  have s: "\<not> MatchString ffmpegSilenceDetectStartRX ?r"
    unfolding MatchString_iff matches_start by simp
  show "parseSilenceDetectLog l = ffmpegSilenceDetectEvent_end"
    using parse_with_prefix[OF r] e s by simp
qed

lemma decimal_last: "decimal n \<Longrightarrow> n \<noteq> [] \<and> last n \<in> set digit_class"
  unfolding decimal_def by (auto simp: last_append subset_iff)

lemma spec_silence_end_line_last:
  assumes "spec_silence_end_line l"
  shows "last l \<in> set digit_class"
proof -
  from assms obtain p w n d where n: "decimal n" and d: "d = [] \<or> duration_clause d"
    and l: "l = p @ ''silence_end:'' @ [w] @ n @ d"
    unfolding spec_silence_end_line_def by blast
  from d show ?thesis
  proof
    assume "d = []"
    with l decimal_last[OF n] show ?thesis by (simp add: last_append)
  next
    assume "duration_clause d"
    then obtain pre m where m: "decimal m" and "d = pre @ ''duration: '' @ m"
      unfolding duration_clause_def by blast
    with l decimal_last[OF m] show ?thesis by (simp add: last_append)
  qed
qed

lemmas classifier_eval = parseSilenceDetectLog_def FindString_def MatchString_def
  ffmpegSilenceDetectPrefixRX_def ffmpegSilenceDetectStartRX_def
  ffmpegSilenceDetectEndRX_def numberRX_def Lit_def
  space_class_def digit_class_def hex_class_def

text \<open>
  Claim C1, as amended. For every input line, \<open>parseSilenceDetectLog\<close> returns the start
  event exactly when the line is a tool tag followed by \<open>silence_start: <n>\<close> and nothing
  else, the end event exactly when the line is a tool tag followed by
  \<open>silence_end: <n>\<close> and then any text at all (the end pattern has no end anchor), and
  the unknown event for every other line; \<open><n>\<close> is an optionally negative, optionally
  fractional decimal.
\<close>

theorem parseSilenceDetectLog_classification:
  "parseSilenceDetectLog l =
     (if silence_start_line l then ffmpegSilenceDetectEvent_start
      else if silence_end_line l then ffmpegSilenceDetectEvent_end
      else ffmpegSilenceDetectEvent_unknown)"
  using parse_start_iff[of l] parse_end_iff[of l]
  by (cases "parseSilenceDetectLog l") auto

theorem parseSilenceDetectLog_classification_witness:
  "silence_end_line ''[silencedetect @ 0x7fc1f3625880] silence_end: 2.21243 | silence_duration: 2.21243''
   \<and> \<not> silence_start_line ''[silencedetect @ 0x7fc1f3625880] silence_end: 2.21243 | silence_duration: 2.21243''"
proof -
  let ?l = "''[silencedetect @ 0x7fc1f3625880] silence_end: 2.21243 | silence_duration: 2.21243''"
  have "parseSilenceDetectLog ?l = ffmpegSilenceDetectEvent_end"
    by (simp add: classifier_eval)
  then show ?thesis
    using parseSilenceDetectLog_classification[of ?l] by (simp split: if_splits)
qed

text \<open>
  Claim C1 as the specification states it fails: the line below is a tool tag followed
  by \<open>silence_end: 0\<close> and the letter \<open>x\<close>, which is neither the bare end pattern nor
  the end pattern with a duration clause, so the specification classifies it as
  unknown; the code classifies it as a silence end.
\<close>

theorem parseSilenceDetectLog_spec_counterexample:
  "parseSilenceDetectLog ''[silencedetect @ 0x0] silence_end: 0x'' = ffmpegSilenceDetectEvent_end
   \<and> spec_classification ''[silencedetect @ 0x0] silence_end: 0x'' = ffmpegSilenceDetectEvent_unknown"
proof -
  let ?l = "''[silencedetect @ 0x0] silence_end: 0x''"
  have e: "parseSilenceDetectLog ?l = ffmpegSilenceDetectEvent_end"
    by (simp add: classifier_eval)
  have "\<not> silence_start_line ?l"
    using e parse_start_iff[of ?l] by simp
  moreover have "\<not> spec_silence_end_line ?l"
    using spec_silence_end_line_last[of ?l] by (auto simp: digit_class_def)
  ultimately show ?thesis
    using e by (simp add: spec_classification_def)
qed

section \<open>Stream liveness probe: proofs\<close>

lemmas probe_defs = decoder_header_def decoder_tag_def select_exited_def receive_tail_def
  select_ctx_done_def select_decoderC_def Kill_def add_log_def

lemma run_append:
  "run b u (xs @ ys) s = (case run b u xs s of None \<Rightarrow> None | Some s' \<Rightarrow> run b u ys s')"
  by (induction xs arbitrary: s) (auto split: option.splits)

lemma step_updates:
  "step b u e s = Some s' \<Longrightarrow>
     updates s' = (if e = HeaderDecode None
                   then updates s @ [(b, SetIsStreamAlive True NewState)] else updates s)"
  by (cases e) (auto simp: probe_defs Let_def split: if_splits option.splits main_pc.splits)


lemma step_dec_header:
  "step b u e s = Some s' \<Longrightarrow> dec s' = DecHeader \<Longrightarrow> dec s = DecHeader \<and> (\<forall>r. e \<noteq> HeaderDecode r)"
  by (cases e) (auto simp: probe_defs Let_def split: if_splits option.splits main_pc.splits)


lemma step_header_enabled:
  "step b u (HeaderDecode r) s = Some s' \<Longrightarrow> dec s = DecHeader \<and> dec s' \<noteq> DecHeader"
  by (cases r) (auto simp: probe_defs split: if_splits)


lemma run_Cons_Some:
  "run b u (e # es) s = Some s' \<longleftrightarrow> (\<exists>s1. step b u e s = Some s1 \<and> run b u es s1 = Some s')"
  by (cases "step b u e s") auto

lemma run_no_second_header:
  "run b u evs s = Some s' \<Longrightarrow> dec s \<noteq> DecHeader \<Longrightarrow> HeaderDecode r \<notin> set evs"
proof (induction evs arbitrary: s)
  case Nil
  then show ?case by simp
next
  case (Cons e es)
  from Cons.prems(1) obtain s1 where s1: "step b u e s = Some s1" "run b u es s1 = Some s'"
    unfolding run_Cons_Some by blast
  have "dec s1 \<noteq> DecHeader" using step_dec_header[OF s1(1)] Cons.prems(2) by blast
  then have "HeaderDecode r \<notin> set es" using Cons.IH[OF s1(2)] by simp
  moreover have "e \<noteq> HeaderDecode r"
    using s1(1) Cons.prems(2) step_header_enabled[of b u r s s1] by blast
  ultimately show ?case by simp
qed

lemma run_updates:
  "run b u evs s = Some s' \<Longrightarrow>
     updates s' = updates s @
       (if dec s = DecHeader \<and> HeaderDecode None \<in> set evs
        then [(b, SetIsStreamAlive True NewState)] else [])"
proof (induction evs arbitrary: s)
  case Nil
  then show ?case by simp
next
  case (Cons e es)
  from Cons.prems obtain s1 where s1: "step b u e s = Some s1" "run b u es s1 = Some s'"
    unfolding run_Cons_Some by blast
  note ih = Cons.IH[OF s1(2)]
  show ?case
  proof (cases "e = HeaderDecode None")
    case True
    have d: "dec s = DecHeader" "dec s1 \<noteq> DecHeader"
      using step_header_enabled[OF s1(1)[unfolded True]] by blast+
    show ?thesis using ih d step_updates[OF s1(1)] True by simp
  next
    case False
    show ?thesis
    proof (cases "dec s1 = DecHeader")
      case True
      then have "dec s = DecHeader" using step_dec_header[OF s1(1)] by blast
      then show ?thesis using ih True step_updates[OF s1(1)] False by simp
    next
      case False
      then have "HeaderDecode None \<notin> set es" using run_no_second_header[OF s1(2)] by blast
      then show ?thesis using ih False step_updates[OF s1(1)] \<open>e \<noteq> HeaderDecode None\<close> by simp
    qed
  qed
qed


lemma decoder_header_frame:
  "proc (decoder_header b u r s) = proc s"
  "waited (decoder_header b u r s) = waited s"
  "exitedC (decoder_header b u r s) = exitedC s"
  "exitingFlag (decoder_header b u r s) = exitingFlag s"
  "tailed (decoder_header b u r s) = tailed s"
  "stderrC (decoder_header b u r s) = stderrC s"
  "ctx_done (decoder_header b u r s) = ctx_done s"
  "main (decoder_header b u r s) = main s"
  "kills (decoder_header b u r s) = kills s"
  by (simp_all add: decoder_header_def add_log_def Kill_def Let_def split: option.splits)

lemma decoder_tag_frame:
  "proc (decoder_tag r s) = proc s"
  "waited (decoder_tag r s) = waited s"
  "exitedC (decoder_tag r s) = exitedC s"
  "exitingFlag (decoder_tag r s) = exitingFlag s"
  "tailed (decoder_tag r s) = tailed s"
  "stderrC (decoder_tag r s) = stderrC s"
  "ctx_done (decoder_tag r s) = ctx_done s"
  "main (decoder_tag r s) = main s"
  "kills (decoder_tag r s) = kills s"
  "updates (decoder_tag r s) = updates s"
  by (simp_all add: decoder_tag_def add_log_def Kill_def Let_def split: option.splits)

lemma select_exited_frame:
  "proc (select_exited s) = proc s"
  "waited (select_exited s) = waited s"
  "tailed (select_exited s) = tailed s"
  "stderrC (select_exited s) = stderrC s"
  "dec (select_exited s) = dec s"
  "decoderC (select_exited s) = decoderC s"
  "ctx_done (select_exited s) = ctx_done s"
  "kills (select_exited s) = kills s"
  "updates (select_exited s) = updates s"
  by (simp_all add: select_exited_def add_log_def Kill_def Let_def split: option.splits)

lemma receive_tail_frame:
  "proc (receive_tail c t s) = proc s"
  "waited (receive_tail c t s) = waited s"
  "exitedC (receive_tail c t s) = exitedC s"
  "exitingFlag (receive_tail c t s) = exitingFlag s"
  "tailed (receive_tail c t s) = tailed s"
  "dec (receive_tail c t s) = dec s"
  "decoderC (receive_tail c t s) = decoderC s"
  "ctx_done (receive_tail c t s) = ctx_done s"
  "kills (receive_tail c t s) = kills s"
  "updates (receive_tail c t s) = updates s"
  by (simp_all add: receive_tail_def add_log_def Kill_def Let_def split: option.splits)

lemma select_ctx_done_frame:
  "waited (select_ctx_done s) = waited s"
  "exitedC (select_ctx_done s) = exitedC s"
  "tailed (select_ctx_done s) = tailed s"
  "stderrC (select_ctx_done s) = stderrC s"
  "dec (select_ctx_done s) = dec s"
  "decoderC (select_ctx_done s) = decoderC s"
  "ctx_done (select_ctx_done s) = ctx_done s"
  "main (select_ctx_done s) = main s"
  "updates (select_ctx_done s) = updates s"
  by (simp_all add: select_ctx_done_def add_log_def Kill_def Let_def split: option.splits)

lemma select_decoderC_frame:
  "waited (select_decoderC s) = waited s"
  "exitedC (select_decoderC s) = exitedC s"
  "exitingFlag (select_decoderC s) = exitingFlag s"
  "tailed (select_decoderC s) = tailed s"
  "stderrC (select_decoderC s) = stderrC s"
  "dec (select_decoderC s) = dec s"
  "ctx_done (select_decoderC s) = ctx_done s"
  "main (select_decoderC s) = main s"
  "updates (select_decoderC s) = updates s"
  by (simp_all add: select_decoderC_def add_log_def Kill_def Let_def split: option.splits)

lemmas probe_frame = decoder_header_frame decoder_tag_frame select_exited_frame
  receive_tail_frame select_ctx_done_frame select_decoderC_frame

lemma decoder_header_logs:
  "logs (decoder_header b u r s) = logs s @
     (case r of
        Some e \<Rightarrow> (if \<not> exitingFlag s
                   then [if e = io_EOF then Log WarnLevel ''Closed pipe'' []
                         else Log WarnLevel ''Unable to decode'' [ErrF e]]
                   else [])
      | None \<Rightarrow> [Log DebugLevel ''Successfully decoded stream header'' [],
                 Log InfoLevel ''Stream is alive'' [StrF ''url'' u]])"
  by (simp add: decoder_header_def add_log_def split: option.splits)

lemma decoder_tag_logs:
  "logs (decoder_tag r s) = logs s @
     (case r of
        Some e \<Rightarrow> (if \<not> exitingFlag s
                   then [if e = io_EOF then Log WarnLevel ''Closed pipe'' []
                         else Log WarnLevel ''Failed to decode FLV tag'' [ErrF e]]
                   else [])
      | None \<Rightarrow> [])"
  by (simp add: decoder_tag_def add_log_def split: option.splits)

lemma select_exited_logs:
  "logs (select_exited s) = logs s @
     (if proc s = None \<or> proc s = Some (- 1) then [Log WarnLevel ''Player terminated'' []] else [])"
  by (simp add: select_exited_def add_log_def Let_def split: option.splits)

lemma select_exited_main:
  "main (select_exited s) =
     (case proc s of None \<Rightarrow> Returned
      | Some c \<Rightarrow> if c = - 1 then Returned else AwaitTail c)"
  by (simp add: select_exited_def add_log_def Let_def split: option.splits)

lemma receive_tail_logs:
  "logs (receive_tail c t s) = logs s @
     [Log ErrorLevel ''Player exited'' [IntF ''code'' c, StrF ''logtail'' (LogTailer_String t)]]"
  by (simp add: receive_tail_def add_log_def)

lemma receive_tail_main: "main (receive_tail c t s) = Returned"
  by (simp add: receive_tail_def add_log_def)

lemma select_ctx_done_logs:
  "logs (select_ctx_done s) = logs s @
     (if \<not> exitingFlag s
      then [Log DebugLevel ''Cancel request received, killing the process'' []] else [])"
  by (simp add: select_ctx_done_def add_log_def Kill_def)

lemma select_decoderC_logs:
  "logs (select_decoderC s) = logs s @
     [Log DebugLevel ''Decoder failure, killing the process'' []]"
  by (simp add: select_decoderC_def add_log_def Kill_def)

lemma Kill_proc: "proc (Kill s) = Some c \<longleftrightarrow> (proc s = Some c \<or> (proc s = None \<and> c = - 1))"
  by (auto simp: Kill_def split: option.splits)

lemma select_ctx_done_proc:
  "proc s = Some c \<Longrightarrow> proc (select_ctx_done s) = Some c"
  by (simp add: select_ctx_done_def add_log_def Kill_def)

lemma select_decoderC_proc:
  "proc s = Some c \<Longrightarrow> proc (select_decoderC s) = Some c"
  by (simp add: select_decoderC_def add_log_def Kill_def)

lemmas probe_logs = decoder_header_logs decoder_tag_logs select_exited_logs receive_tail_logs
  select_ctx_done_logs select_decoderC_logs

lemma run_snoc:
  "run b u (evs @ [e]) s = Some s' \<longleftrightarrow>
     (\<exists>s1. run b u evs s = Some s1 \<and> step b u e s1 = Some s')"
  by (simp add: run_append split: option.splits)

lemma step_proc_stable:
  "step b u e s = Some s' \<Longrightarrow> proc s = Some c \<Longrightarrow> proc s' = Some c"
  by (cases e)
     (auto simp: probe_frame select_ctx_done_proc select_decoderC_proc
           split: if_splits option.splits main_pc.splits)

lemma step_ProcessExits: "step b u (ProcessExits c) s = Some s' \<Longrightarrow> proc s' = Some c"
  by (auto split: if_splits)

lemma run_exit_code:
  "run b u evs s0 = Some s \<Longrightarrow> ProcessExits c \<in> set evs \<Longrightarrow> proc s = Some c"
proof (induction evs arbitrary: s rule: rev_induct)
  case Nil
  then show ?case by simp
next
  case (snoc e evs)
  from snoc.prems(1) obtain s1 where s1: "run b u evs s0 = Some s1" "step b u e s1 = Some s"
    unfolding run_snoc by blast
  show ?case
  proof (cases "ProcessExits c \<in> set evs")
    case True
    then show ?thesis using snoc.IH[OF s1(1)] step_proc_stable[OF s1(2)] by blast
  next
    case False
    then have "e = ProcessExits c" using snoc.prems(2) by simp
    then show ?thesis using step_ProcessExits s1(2) by blast
  qed
qed

lemma failure_reports_append:
  "failure_reports (xs @ ys) = failure_reports xs @ failure_reports ys"
  by (simp add: failure_reports_def)

lemma failure_reports_simps:
  "failure_reports [] = []"
  "failure_reports (Log l m fs # xs) =
     (if l = ErrorLevel then Log l m fs # failure_reports xs else failure_reports xs)"
  by (simp_all add: failure_reports_def)

lemma exit_classified_extend:
  "exit_classified evs c ls \<Longrightarrow> failure_reports extra = []
     \<Longrightarrow> Log WarnLevel ''Player terminated'' [] \<notin> set extra
     \<Longrightarrow> exit_classified (evs @ es) c (ls @ extra)"
  unfolding exit_classified_def
  by (auto simp: failure_reports_append)

lemma exit_classified_more_events:
  "exit_classified evs c ls \<Longrightarrow> exit_classified (evs @ es) c ls"
  using exit_classified_extend[of evs c ls "[]" es] by (simp add: failure_reports_simps)

lemma inv_frame:
  assumes inv: "probe_inv evs s"
    and same: "exitedC s' = exitedC s" "stderrC s' = stderrC s" "main s' = main s"
    and lg: "logs s' = logs s @ extra" "failure_reports extra = []"
      "Log WarnLevel ''Player terminated'' [] \<notin> set extra"
    and pr: "\<And>c. proc s = Some c \<Longrightarrow> proc s' = Some c"
  shows "probe_inv (evs @ es) s'"
proof -
  have a: "exitedC s' \<longrightarrow> proc s' \<noteq> None"
    using inv same(1) pr unfolding probe_inv_def by fastforce
  have b: "\<forall>t. stderrC s' = Some t \<longrightarrow>
     (\<exists>err_lines. TailDone err_lines \<in> set (evs @ es) \<and> t = Tail (NewLogTailer 3) err_lines)"
    using inv same(2) unfolding probe_inv_def by auto
  have c: "case main s' of
        Selecting \<Rightarrow>
          failure_reports (logs s') = [] \<and> Log WarnLevel ''Player terminated'' [] \<notin> set (logs s')
      | AwaitTail c \<Rightarrow>
          proc s' = Some c \<and> c \<noteq> - 1 \<and> failure_reports (logs s') = []
          \<and> Log WarnLevel ''Player terminated'' [] \<notin> set (logs s')
      | Returned \<Rightarrow> (\<exists>c. proc s' = Some c \<and> exit_classified (evs @ es) c (logs s'))"
  proof (cases "main s")
    case Selecting
    then show ?thesis
      using inv lg unfolding probe_inv_def same(3) by (simp add: failure_reports_append)
  next
    case (AwaitTail c)
    then show ?thesis
      using inv lg pr unfolding probe_inv_def same(3) by (simp add: failure_reports_append)
  next
    case Returned
    with inv obtain c where c: "proc s = Some c" "exit_classified evs c (logs s)"
      unfolding probe_inv_def by auto
    have "exit_classified (evs @ es) c (logs s')"
      unfolding lg(1) using exit_classified_extend[OF c(2) lg(2,3)] .
    with pr[OF c(1)] Returned show ?thesis unfolding same(3) by auto
  qed
  show ?thesis unfolding probe_inv_def using a b c by blast
qed

lemma inv_HeaderDecode:
  assumes "probe_inv evs s" and "step b u (HeaderDecode r) s = Some s'"
  shows "probe_inv (evs @ [HeaderDecode r]) s'"
proof -
  from assms(2) have s': "s' = decoder_header b u r s" by (simp split: if_splits)
  show ?thesis
    unfolding s'
    by (rule inv_frame[OF assms(1) _ _ _ decoder_header_logs])
       (simp_all add: probe_frame failure_reports_simps split: option.splits)
qed

lemma inv_TagDecode:
  assumes "probe_inv evs s" and "step b u (TagDecode r) s = Some s'"
  shows "probe_inv (evs @ [TagDecode r]) s'"
proof -
  from assms(2) have s': "s' = decoder_tag r s" by (simp split: if_splits)
  show ?thesis
    unfolding s'
    by (rule inv_frame[OF assms(1) _ _ _ decoder_tag_logs])
       (simp_all add: probe_frame failure_reports_simps split: option.splits)
qed

lemma inv_SelectCtxDone:
  assumes "probe_inv evs s" and "step b u SelectCtxDone s = Some s'"
  shows "probe_inv (evs @ [SelectCtxDone]) s'"
proof -
  from assms(2) have s': "s' = select_ctx_done s" by (simp split: if_splits)
  show ?thesis
    unfolding s'
    by (rule inv_frame[OF assms(1) _ _ _ select_ctx_done_logs])
       (simp_all add: probe_frame failure_reports_simps select_ctx_done_proc)
qed

lemma inv_SelectDecoderC:
  assumes "probe_inv evs s" and "step b u SelectDecoderC s = Some s'"
  shows "probe_inv (evs @ [SelectDecoderC]) s'"
proof -
  from assms(2) have s': "s' = select_decoderC s" by (simp split: if_splits)
  show ?thesis
    unfolding s'
    by (rule inv_frame[OF assms(1) _ _ _ select_decoderC_logs])
       (simp_all add: probe_frame failure_reports_simps select_decoderC_proc)
qed

lemma inv_SelectExited:
  assumes "probe_inv evs s" and "step b u SelectExited s = Some s'"
  shows "probe_inv (evs @ [SelectExited]) s'"
proof -
  from assms(2) have s': "s' = select_exited s" and m: "main s = Selecting" "exitedC s"
    by (simp_all split: if_splits)
  from assms(1) m obtain c where c: "proc s = Some c"
    unfolding probe_inv_def by auto
  have e: "exitedC (select_exited s) = False"
    by (simp add: select_exited_def add_log_def Let_def)
  show ?thesis
    using assms(1) m c unfolding s' probe_inv_def probe_frame select_exited_logs
      select_exited_main e
    by (auto simp: failure_reports_append failure_reports_simps exit_classified_def)
qed

lemma inv_ReceiveTail:
  assumes "probe_inv evs s" and "step b u ReceiveTail s = Some s'"
  shows "probe_inv (evs @ [ReceiveTail]) s'"
proof -
  from assms(2) obtain c t where m: "main s = AwaitTail c" "stderrC s = Some t"
    and s': "s' = receive_tail c t s"
    by (auto split: main_pc.splits option.splits)
  have e: "stderrC (receive_tail c t s) = None"
    by (simp add: receive_tail_def add_log_def)
  show ?thesis
    using assms(1) m unfolding s' probe_inv_def probe_frame receive_tail_logs
      receive_tail_main e
    by (auto simp: failure_reports_append failure_reports_simps exit_classified_def)
qed

lemma probe_inv_step:
  assumes "probe_inv evs s" and "step b u e s = Some s'"
  shows "probe_inv (evs @ [e]) s'"
proof (cases e)
  case (ProcessExits c)
  then show ?thesis using assms
    by (auto simp: probe_inv_def exit_classified_def split: if_splits main_pc.splits)
next
  case WaitReturns
  then show ?thesis using assms
    by (auto simp: probe_inv_def exit_classified_def split: if_splits main_pc.splits)
next
  case (TailDone ls)
  then show ?thesis using assms
    by (auto simp: probe_inv_def exit_classified_def split: if_splits main_pc.splits)
next
  case (HeaderDecode r)
  then show ?thesis using assms inv_HeaderDecode by blast
next
  case (TagDecode r)
  then show ?thesis using assms inv_TagDecode by blast
next
  case Cancel
  then show ?thesis using assms
    by (auto simp: probe_inv_def exit_classified_def split: if_splits main_pc.splits)
next
  case SelectExited
  then show ?thesis using assms inv_SelectExited by blast
next
  case ReceiveTail
  then show ?thesis using assms inv_ReceiveTail by blast
next
  case SelectCtxDone
  then show ?thesis using assms inv_SelectCtxDone by blast
next
  case SelectDecoderC
  then show ?thesis using assms inv_SelectDecoderC by blast
qed

lemma probe_inv_started: "probe_inv [] (started u)"
  by (simp add: probe_inv_def started_def failure_reports_simps)

lemma probe_inv_run:
  "run b u evs (started u) = Some s \<Longrightarrow> probe_inv evs s"
proof (induction evs arbitrary: s rule: rev_induct)
  case Nil
  then show ?case using probe_inv_started by auto
next
  case (snoc e evs)
  from snoc.prems obtain s1 where s1: "run b u evs (started u) = Some s1" "step b u e s1 = Some s"
    unfolding run_snoc by blast
  show ?case using probe_inv_step[OF snoc.IH[OF s1(1)] s1(2)] .
qed

lemma tail_push_capacity: "tail_capacity (tail_push t l) = tail_capacity t"
  by (simp add: tail_push_def Let_def)

lemma keep_last_append:
  "drop (length (drop (length xs - n) xs @ ys) - n) (drop (length xs - n) xs @ ys)
     = drop (length (xs @ ys) - n) (xs @ ys)"
proof (cases "length xs \<le> n")
  case True
  then show ?thesis by simp
next
  case False
  then have "length xs - (length xs - n) = n" by simp
  then show ?thesis using False by (simp add: add.commute)
qed

lemma Tail_lines:
  "length (tail_lines t) \<le> tail_capacity t \<Longrightarrow>
     tail_capacity (Tail t ls) = tail_capacity t \<and>
     tail_lines (Tail t ls) =
       drop (length (tail_lines t @ ls) - tail_capacity t) (tail_lines t @ ls)"
  unfolding Tail_def
proof (induction ls arbitrary: t)
  case Nil
  then show ?case by simp
next
  case (Cons l ls)
  let ?t = "tail_push t l"
  let ?n = "tail_capacity t"
  have c: "tail_capacity ?t = ?n" by (rule tail_push_capacity)
  have l: "tail_lines ?t = drop (length (tail_lines t @ [l]) - ?n) (tail_lines t @ [l])"
    by (simp add: tail_push_def Let_def)
  have le: "length (tail_lines ?t) \<le> tail_capacity ?t"
    unfolding l c by simp
  have "tail_lines (foldl tail_push ?t ls) =
          drop (length (tail_lines ?t @ ls) - ?n) (tail_lines ?t @ ls)"
    using Cons.IH[OF le] c by simp
  also have "\<dots> = drop (length ((tail_lines t @ [l]) @ ls) - ?n) ((tail_lines t @ [l]) @ ls)"
    unfolding l by (rule keep_last_append)
  finally show ?case using Cons.IH[OF le] c by simp
qed

lemma NewLogTailer_Tail:
  "tail_lines (Tail (NewLogTailer n) ls) = drop (length ls - n) ls"
  using Tail_lines[of "NewLogTailer n" ls] by (simp add: NewLogTailer_def)



text \<open>
  Claim C2. In every run of the probe in which the decoder reads the container header
  successfully, the probe reports the stream alive to the state store exactly once,
  however many tags are decoded afterwards; in a run in which the header is never
  decoded successfully it reports it zero times.
\<close>

theorem dummyPlayer_alive_exactly_once:
  assumes "run babyUID url evs (started url) = Some s"
  shows "updates s =
     (if HeaderDecode None \<in> set evs then [(babyUID, SetIsStreamAlive True NewState)] else [])"
  using run_updates[OF assms] by (simp add: started_def)

theorem dummyPlayer_alive_exactly_once_witness:
  "map_option updates
       (run ''b'' ''u'' [HeaderDecode None, TagDecode None, TagDecode None, TagDecode None] (started ''u''))
     = Some [(''b'', SetIsStreamAlive True NewState)]"
proof -
  obtain s where s: "run ''b'' ''u'' [HeaderDecode None, TagDecode None, TagDecode None, TagDecode None] (started ''u'') = Some s"
    by (simp add: started_def probe_defs)
  from dummyPlayer_alive_exactly_once[OF s] s show ?thesis by simp
qed

lemmas probe_eval = started_def probe_defs NewLogTailer_def Tail_def tail_push_def
  LogTailer_String_def failure_reports_def Let_def

lemma step_stderrC:
  "step b u e s = Some s' \<Longrightarrow> e \<noteq> ReceiveTail \<Longrightarrow> stderrC s \<noteq> None \<Longrightarrow> stderrC s' \<noteq> None"
  by (cases e) (auto simp: probe_frame split: if_splits)

lemma step_TailDone: "step b u (TailDone ls) s = Some s' \<Longrightarrow> stderrC s' \<noteq> None"
  by (auto split: if_splits)

lemma step_ReceiveTail: "step b u ReceiveTail s = Some s' \<Longrightarrow> main s' = Returned"
  by (auto simp: receive_tail_main split: main_pc.splits option.splits)

lemma step_main_Returned: "step b u e s = Some s' \<Longrightarrow> main s = Returned \<Longrightarrow> main s' = Returned"
  by (cases e) (auto simp: probe_frame split: if_splits)

lemma tail_inv_step:
  assumes inv: "tail_inv evs s" and st: "step b u e s = Some s'"
  shows "tail_inv (evs @ [e]) s'"
proof (cases "e = ReceiveTail \<or> main s = Returned")
  case True
  then have "main s' = Returned"
    using step_ReceiveTail[of b u s s'] step_main_Returned[OF st] st by blast
  then show ?thesis unfolding tail_inv_def by simp
next
  case False
  show ?thesis
  proof (cases "\<exists>ls. e = TailDone ls")
    case True
    then show ?thesis using step_TailDone st unfolding tail_inv_def by blast
  next
    case no: False
    then have "(\<exists>l. TailDone l \<in> set (evs @ [e])) \<longleftrightarrow> (\<exists>l. TailDone l \<in> set evs)"
      by auto
    then show ?thesis
      using inv False step_stderrC[OF st] unfolding tail_inv_def by blast
  qed
qed

lemma tail_inv_run:
  "run b u evs (started u) = Some s \<Longrightarrow> tail_inv evs s"
proof (induction evs arbitrary: s rule: rev_induct)
  case Nil
  then show ?case by (simp add: tail_inv_def)
next
  case (snoc e evs)
  from snoc.prems obtain s1 where s1: "run b u evs (started u) = Some s1" "step b u e s1 = Some s"
    unfolding run_snoc by blast
  show ?case using tail_inv_step[OF snoc.IH[OF s1(1)] s1(2)] .
qed

lemma exit_reported:
  assumes "main s = Selecting" and "exitedC s" and "stderrC s \<noteq> None"
  shows "\<exists>s'. (run b u [SelectExited] s = Some s' \<or> run b u [SelectExited, ReceiveTail] s = Some s')
           \<and> main s' = Returned"
proof (cases "main (select_exited s) = Returned")
  case True
  then show ?thesis using assms by simp
next
  case False
  then obtain c where c: "main (select_exited s) = AwaitTail c"
    by (auto simp: select_exited_main split: option.splits if_splits)
  from assms(3) obtain t where t: "stderrC (select_exited s) = Some t"
    by (auto simp: probe_frame)
  have "run b u [SelectExited, ReceiveTail] s = Some (receive_tail c t (select_exited s))"
    using assms c t by simp
  then show ?thesis using receive_tail_main by blast
qed

lemma classified_run:
  assumes "run b u evs (started u) = Some s" and "ProcessExits c \<in> set evs"
    and "main s = Returned"
  shows "exit_classified evs c (logs s)"
proof -
  have "proc s = Some c" using run_exit_code[OF assms(1,2)] .
  moreover have "probe_inv evs s" using probe_inv_run[OF assms(1)] .
  ultimately show ?thesis using assms(3) unfolding probe_inv_def by auto
qed

text \<open>
  Claim C3. When the external process of the probe exits on its own with code \<open>c\<close>, the
  probe classifies the exit by the code. Once the probe has returned, the code \<open>-1\<close>
  has been logged as an expected termination and has left no failure report; every
  other code, zero included, has left exactly one failure report, which carries the
  code and the tail of standard error, and no line of an expected termination. And
  the probe does return with that classification: once the exit is signalled and
  standard error has been read to its end, selecting the exit (and receiving the tail)
  ends the run. The tail holds the last three lines of standard error at most.
\<close>

theorem dummyPlayer_exit_classification:
  assumes "run babyUID url evs (started url) = Some s"
    and "ProcessExits c \<in> set evs"
  shows "(main s = Returned \<longrightarrow> exit_classified evs c (logs s))
     \<and> (main s = Selecting \<and> exitedC s \<and> TailDone err_lines \<in> set evs \<longrightarrow>
          (\<exists>evs' s'. evs' \<in> {[SelectExited], [SelectExited, ReceiveTail]}
             \<and> run babyUID url evs' s = Some s' \<and> main s' = Returned
             \<and> exit_classified (evs @ evs') c (logs s')))
     \<and> tail_lines (Tail (NewLogTailer 3) err_lines) = drop (length err_lines - 3) err_lines"
proof (intro conjI impI)
  assume "main s = Returned"
  then show "exit_classified evs c (logs s)" using classified_run[OF assms] by simp
next
  assume a: "main s = Selecting \<and> exitedC s \<and> TailDone err_lines \<in> set evs"
  then have "stderrC s \<noteq> None"
    using tail_inv_run[OF assms(1)] unfolding tail_inv_def by auto
  with a exit_reported[of s babyUID url] obtain s' where
    s': "run babyUID url [SelectExited] s = Some s'
         \<or> run babyUID url [SelectExited, ReceiveTail] s = Some s'"
    and m: "main s' = Returned"
    by blast
  then obtain evs' where e: "evs' \<in> {[SelectExited], [SelectExited, ReceiveTail]}"
    and r: "run babyUID url evs' s = Some s'"
    by blast
  have "run babyUID url (evs @ evs') (started url) = Some s'"
    using assms(1) r by (simp add: run_append)
  moreover have "ProcessExits c \<in> set (evs @ evs')" using assms(2) by simp
  ultimately have "exit_classified (evs @ evs') c (logs s')"
    using classified_run m by blast
  with e r m show "\<exists>evs' s'. evs' \<in> {[SelectExited], [SelectExited, ReceiveTail]}
             \<and> run babyUID url evs' s = Some s' \<and> main s' = Returned
             \<and> exit_classified (evs @ evs') c (logs s')"
    by blast
next
  show "tail_lines (Tail (NewLogTailer 3) err_lines) = drop (length err_lines - 3) err_lines"
    by (rule NewLogTailer_Tail)
qed

theorem dummyPlayer_exit_classification_witness:
  "exit_classified
     [HeaderDecode None, TagDecode None, ProcessExits 0, TailDone [''a'', ''b'', ''c'', ''d''],
      WaitReturns, SelectExited, ReceiveTail] 0
     (logs (the (run ''baby'' ''rtmp://h/local/baby''
        [HeaderDecode None, TagDecode None, ProcessExits 0, TailDone [''a'', ''b'', ''c'', ''d''],
         WaitReturns, SelectExited, ReceiveTail] (started ''rtmp://h/local/baby''))))
   \<and> (\<exists>evs' s'. evs' \<in> {[SelectExited], [SelectExited, ReceiveTail]}
        \<and> run ''baby'' ''rtmp://h/local/baby'' evs'
            (the (run ''baby'' ''rtmp://h/local/baby''
               [HeaderDecode None, TagDecode None, ProcessExits 0,
                TailDone [''a'', ''b'', ''c'', ''d''], WaitReturns]
               (started ''rtmp://h/local/baby''))) = Some s'
        \<and> main s' = Returned)
   \<and> tail_lines (Tail (NewLogTailer 3) [''a'', ''b'', ''c'', ''d'']) = [''b'', ''c'', ''d'']"
proof -
  let ?pre = "[HeaderDecode None, TagDecode None, ProcessExits 0,
    TailDone [''a'', ''b'', ''c'', ''d''], WaitReturns]"
  let ?evs = "[HeaderDecode None, TagDecode None, ProcessExits 0,
    TailDone [''a'', ''b'', ''c'', ''d''], WaitReturns, SelectExited, ReceiveTail]"
  obtain s where s: "run ''baby'' ''rtmp://h/local/baby'' ?evs (started ''rtmp://h/local/baby'') = Some s"
    and m: "main s = Returned"
    by (simp add: probe_eval)
  obtain s0 where s0: "run ''baby'' ''rtmp://h/local/baby'' ?pre (started ''rtmp://h/local/baby'') = Some s0"
    and m0: "main s0 = Selecting \<and> exitedC s0"
    by (simp add: probe_eval)
  have x: "ProcessExits 0 \<in> set ?evs" "ProcessExits 0 \<in> set ?pre"
    "TailDone [''a'', ''b'', ''c'', ''d''] \<in> set ?pre" by simp_all
  from dummyPlayer_exit_classification[OF s x(1), of "[''a'', ''b'', ''c'', ''d'']"]
    dummyPlayer_exit_classification[OF s0 x(2), of "[''a'', ''b'', ''c'', ''d'']"]
    s m s0 m0 x(3)
  show ?thesis by auto
qed

text \<open>
  Claim C4 fails on the code at an end of stream met in the loop over the tags. The
  header decodes, the next read returns \<open>io.EOF\<close> while the latch is not set and the
  process runs: the decoder logs a warning, sends nothing on \<open>decoderC\<close> and stays in
  its loop, so the select has no decoder failure to receive and the process is not
  killed. The same end of stream met at the header is sent and the process is killed.
\<close>

theorem dummyPlayer_tag_eof_not_killed:
  "map_option (\<lambda>s. (exitingFlag s, proc s, dec s, decoderC s, kills s))
     (run ''baby'' ''rtmp://h/local/baby'' [HeaderDecode None, TagDecode (Some io_EOF)]
        (started ''rtmp://h/local/baby''))
     = Some (False, None, DecTags, None, 0)
   \<and> run ''baby'' ''rtmp://h/local/baby''
       [HeaderDecode None, TagDecode (Some io_EOF), SelectDecoderC]
       (started ''rtmp://h/local/baby'') = None
   \<and> map_option (\<lambda>s. (dec s, kills s))
     (run ''baby'' ''rtmp://h/local/baby'' [HeaderDecode (Some io_EOF), SelectDecoderC]
        (started ''rtmp://h/local/baby''))
     = Some (DecReturned, 1)"
  by (simp add: probe_eval)


lemma decoder_warnings_append:
  "decoder_warnings (xs @ ys) = decoder_warnings xs @ decoder_warnings ys"
  by (simp add: decoder_warnings_def)

lemma above_debug_append: "above_debug (xs @ ys) = above_debug xs @ above_debug ys"
  by (simp add: above_debug_def)



















section \<open>Orchestrator, watchdog and supervisor: proofs\<close>

lemmas store_defs = GetBabyState_def GetStreamState_def GetStreamRequestState_def
  Update_def Merge_def or_else_def NewState_def SetStreamState_def SetStreamRequestState_def
  SetIsStreamAlive_def

text \<open>
  Claim C7. For every update of the state store in which the liveness of the managed
  device became unhealthy, the callback of the orchestrator issues a start request,
  unless the request state currently stored for the device is already
  \<open>RequestFailed\<close>, in which case it issues none. The second part reads the store
  right after the merge of the update.
\<close>

theorem liveness_subscriber_rerequest:
  assumes "StreamState stateUpdate = Some StreamState_Unhealthy"
  shows "liveness_subscriber opts babyUID mgr babyUID stateUpdate =
     (if GetStreamRequestState (GetBabyState mgr babyUID) = StreamRequestState_RequestFailed
      then []
      else [requestLocalStreaming babyUID (getLocalStreamURL opts babyUID) Streaming_STARTED])
   \<and> liveness_subscriber opts babyUID (Update mgr babyUID stateUpdate) babyUID stateUpdate =
     (if or_else (StreamRequestState stateUpdate)
           (StreamRequestState (GetBabyState mgr babyUID))
         = Some StreamRequestState_RequestFailed
      then []
      else [requestLocalStreaming babyUID (getLocalStreamURL opts babyUID) Streaming_STARTED])"
proof -
  have a: "GetStreamRequestState (GetBabyState (Update mgr babyUID stateUpdate) babyUID)
       = StreamRequestState_RequestFailed
     \<longleftrightarrow> or_else (StreamRequestState stateUpdate)
           (StreamRequestState (GetBabyState mgr babyUID))
         = Some StreamRequestState_RequestFailed"
    by (auto simp: GetBabyState_def GetStreamRequestState_def Update_def Merge_def
             split: option.splits)
  show ?thesis
    using assms a by (simp add: liveness_subscriber_def initializeLocalStreaming_def)
qed

theorem liveness_subscriber_rerequest_witness:
  "liveness_subscriber \<lparr>RTMP = Some \<lparr>ListenAddr = '':1935'', PublicAddr = ''host:1935''\<rparr>\<rparr>
     ''baby'' (Update Map.empty ''baby'' (SetStreamState StreamState_Unhealthy NewState))
     ''baby'' (SetStreamState StreamState_Unhealthy NewState)
   = [requestLocalStreaming ''baby'' ''rtmp://host:1935/local/baby'' Streaming_STARTED]"
proof -
  have "StreamState (SetStreamState StreamState_Unhealthy NewState) = Some StreamState_Unhealthy"
    by (simp add: store_defs)
  from liveness_subscriber_rerequest[OF this,
      of "\<lparr>RTMP = Some \<lparr>ListenAddr = '':1935'', PublicAddr = ''host:1935''\<rparr>\<rparr>"
         "''baby''" "Map.empty"]
  show ?thesis by (simp add: store_defs getLocalStreamURL_def)
qed

lemma initial_streaming_cases:
  "initial_streaming opts babyUID mgr =
     (if GetStreamState (GetBabyState mgr babyUID) \<noteq> StreamState_Alive
         \<and> (GetStreamRequestState (GetBabyState mgr babyUID) \<noteq> StreamRequestState_Requested
              \<or> GetStreamState (GetBabyState mgr babyUID) = StreamState_Unhealthy)
      then [initializeLocalStreaming opts babyUID] else [])"
  by (simp add: initial_streaming_def Let_def)

text \<open>
  Claim C8, as amended. On the initial connection of the orchestrator, with local
  streaming configured, a start request is issued (once) if and only if the stored
  liveness of the device is not alive and either no request is pending or the stored
  liveness is unhealthy.
\<close>

theorem initial_streaming_request:
  assumes "RTMP opts \<noteq> None"
  shows "count_list (runWebsocket_connected opts babyUID mgr)
           (requestLocalStreaming babyUID (getLocalStreamURL opts babyUID) Streaming_STARTED)
     = (if GetStreamState (GetBabyState mgr babyUID) \<noteq> StreamState_Alive
           \<and> (GetStreamRequestState (GetBabyState mgr babyUID) \<noteq> StreamRequestState_Requested
                \<or> GetStreamState (GetBabyState mgr babyUID) = StreamState_Unhealthy)
        then 1 else 0)"
  using assms
  by (auto simp: runWebsocket_connected_def initial_streaming_cases
        initializeLocalStreaming_def)

theorem initial_streaming_request_witness:
  "count_list
     (runWebsocket_connected \<lparr>RTMP = Some \<lparr>ListenAddr = '':1935'', PublicAddr = ''host:1935''\<rparr>\<rparr>
        ''baby'' Map.empty)
     (requestLocalStreaming ''baby'' ''rtmp://host:1935/local/baby'' Streaming_STARTED) = 1"
proof -
  have "RTMP \<lparr>RTMP = Some \<lparr>ListenAddr = '':1935'', PublicAddr = ''host:1935''\<rparr>\<rparr> \<noteq> None"
    by simp
  from initial_streaming_request[OF this, of "''baby''" Map.empty]
  show ?thesis by (simp add: store_defs getLocalStreamURL_def)
qed

text \<open>
  Claim C8 as stated fails on the code: with the liveness unhealthy and a request
  pending, the specification's condition is false and the request is issued all the
  same.
\<close>

theorem initial_streaming_counterexample:
  "\<not> spec_initial_request
       (GetBabyState
          [''baby'' \<mapsto> \<lparr>StreamState = Some StreamState_Unhealthy,
                          StreamRequestState = Some StreamRequestState_Requested,
                          IsStreamAlive = None, LocalStreamingInitiated = None\<rparr>] ''baby'')
   \<and> runWebsocket_connected \<lparr>RTMP = Some \<lparr>ListenAddr = '':1935'', PublicAddr = ''host:1935''\<rparr>\<rparr>
       ''baby''
       [''baby'' \<mapsto> \<lparr>StreamState = Some StreamState_Unhealthy,
                       StreamRequestState = Some StreamRequestState_Requested,
                       IsStreamAlive = None, LocalStreamingInitiated = None\<rparr>]
     = [RegisterMessageHandler, SendRequest_GET_SENSOR_DATA, Subscribe,
        requestLocalStreaming ''baby'' ''rtmp://host:1935/local/baby'' Streaming_STARTED]"
  by (simp add: spec_initial_request_def runWebsocket_connected_def initial_streaming_def
        initializeLocalStreaming_def getLocalStreamURL_def store_defs)

lemma wd_run_Cons_Some:
  "wd_run opts b ctx (e # es) w = Some w' \<longleftrightarrow>
     (\<exists>w1. wd_step opts b ctx e w = Some w1 \<and> wd_run opts b ctx es w1 = Some w')"
  by (cases "wd_step opts b ctx e w") auto

lemma wd_schedule_append: "wd_schedule (xs @ ys) = wd_schedule xs @ wd_schedule ys"
  by (simp add: wd_schedule_def)

lemma watchdog_iteration_schedule:
  "wd_schedule (wd_trace (watchdog_iteration opts b ctx ds c w)) =
     wd_schedule (wd_trace w) @
       [player_Run \<lparr>BabyUID = b, URL = getLocalStreamURL opts b\<rparr> ctx,
        StateUpdate b (SetStreamState StreamState_Unhealthy NewState),
        timer_Reset (5 * Second)]"
  by (simp add: watchdog_iteration_def Let_def wd_schedule_def)

lemma watchdog_iteration_unhealthy:
  "GetStreamState (GetBabyState (wd_mgr (watchdog_iteration opts b ctx ds c w)) b)
     = StreamState_Unhealthy"
  by (simp add: watchdog_iteration_def Let_def store_defs)

lemma wd_step_schedule:
  "wd_step opts b ctx e w = Some w' \<Longrightarrow>
     wd_schedule (wd_trace w') =
       wd_schedule (wd_trace w) @
         (if is_SelectTimer e
          then [player_Run \<lparr>BabyUID = b, URL = getLocalStreamURL opts b\<rparr> ctx,
                StateUpdate b (SetStreamState StreamState_Unhealthy NewState),
                timer_Reset (5 * Second)]
          else [])"
proof (cases e)
  case (SelectTimer ds c)
  assume "wd_step opts b ctx e w = Some w'"
  with SelectTimer have "w' = watchdog_iteration opts b ctx ds c (w\<lparr>timer_C := False\<rparr>)"
    by (simp split: if_splits)
  then show ?thesis using SelectTimer watchdog_iteration_schedule by simp
qed (auto simp: wd_schedule_def split: if_splits)

lemma wd_run_schedule:
  "wd_run opts b ctx evs w = Some w' \<Longrightarrow>
     wd_schedule (wd_trace w') =
       wd_schedule (wd_trace w) @
         concat (replicate (probe_invocations evs)
           [player_Run \<lparr>BabyUID = b, URL = getLocalStreamURL opts b\<rparr> ctx,
            StateUpdate b (SetStreamState StreamState_Unhealthy NewState),
            timer_Reset (5 * Second)])"
proof (induction evs arbitrary: w)
  case Nil
  then show ?case by (simp add: probe_invocations_def)
next
  case (Cons e es)
  from Cons.prems obtain w1 where w1: "wd_step opts b ctx e w = Some w1"
    "wd_run opts b ctx es w1 = Some w'"
    unfolding wd_run_Cons_Some by blast
  show ?case
    using Cons.IH[OF w1(2)] wd_step_schedule[OF w1(1)]
    by (simp add: probe_invocations_def)
qed

lemma wd_step_returned:
  "wd_step opts b ctx e w = Some w' \<Longrightarrow> wd_returned w
     \<Longrightarrow> wd_returned w' \<and> wd_trace w' = wd_trace w"
  by (cases e) (auto split: if_splits)

lemma wd_run_returned:
  "wd_run opts b ctx evs w = Some w' \<Longrightarrow> wd_returned w
     \<Longrightarrow> wd_returned w' \<and> wd_trace w' = wd_trace w"
proof (induction evs arbitrary: w)
  case Nil
  then show ?case by simp
next
  case (Cons e es)
  from Cons.prems(1) obtain w1 where w1: "wd_step opts b ctx e w = Some w1"
    "wd_run opts b ctx es w1 = Some w'"
    unfolding wd_run_Cons_Some by blast
  from wd_step_returned[OF w1(1) Cons.prems(2)] Cons.IH[OF w1(2)]
  show ?case by simp
qed

text \<open>
  Claim C6. The watchdog invokes the probe again and again, each time with its own
  context, so that a cancellation reaches the probe in progress; every invocation is
  followed by the update that sets the liveness of the device to unhealthy, whatever
  happened to the store while the probe ran, and then by a reset of the timer to the
  same five seconds. After a probe that was cancelled, and whenever a cancellation is
  met while the watchdog waits for the timer, the select cannot start another probe
  and returns; after the return nothing more happens.
\<close>

theorem runWatchDog_fixed_delay_and_unhealthy:
  "(wd_run opts babyUID ctx evs (watchdog_start mgr) = Some w \<longrightarrow>
      wd_schedule (wd_trace w) =
        concat (replicate (probe_invocations evs)
          [player_Run \<lparr>BabyUID = babyUID, URL = getLocalStreamURL opts babyUID\<rparr> ctx,
           StateUpdate babyUID (SetStreamState StreamState_Unhealthy NewState),
           timer_Reset (5 * Second)]))
   \<and> (wd_step opts babyUID ctx (SelectTimer deltas cancelled) w1 = Some w2 \<longrightarrow>
        GetStreamState (GetBabyState (wd_mgr w2) babyUID) = StreamState_Unhealthy
        \<and> timer_pending w2 = Some (5 * Second) \<and> \<not> timer_C w2
        \<and> (cancelled \<longrightarrow> wd_cancelled w2))
   \<and> (wd_cancelled w3 \<and> \<not> timer_C w3 \<and> \<not> wd_returned w3 \<longrightarrow>
        wd_step opts babyUID ctx (SelectTimer deltas cancelled) w3 = None
        \<and> map_option wd_returned (wd_step opts babyUID ctx SelectDone w3) = Some True)
   \<and> (wd_returned w4 \<and> wd_run opts babyUID ctx evs' w4 = Some w5 \<longrightarrow>
        wd_returned w5 \<and> wd_trace w5 = wd_trace w4)"
proof (intro conjI impI)
  assume "wd_run opts babyUID ctx evs (watchdog_start mgr) = Some w"
  from wd_run_schedule[OF this]
  show "wd_schedule (wd_trace w) =
        concat (replicate (probe_invocations evs)
          [player_Run \<lparr>BabyUID = babyUID, URL = getLocalStreamURL opts babyUID\<rparr> ctx,
           StateUpdate babyUID (SetStreamState StreamState_Unhealthy NewState),
           timer_Reset (5 * Second)])"
    by (simp add: watchdog_start_def wd_schedule_def)
next
  assume "wd_step opts babyUID ctx (SelectTimer deltas cancelled) w1 = Some w2"
  then have w2: "w2 = watchdog_iteration opts babyUID ctx deltas cancelled (w1\<lparr>timer_C := False\<rparr>)"
    by (simp split: if_splits)
  show "GetStreamState (GetBabyState (wd_mgr w2) babyUID) = StreamState_Unhealthy"
    unfolding w2 by (rule watchdog_iteration_unhealthy)
  show "timer_pending w2 = Some (5 * Second)"
    unfolding w2 by (simp add: watchdog_iteration_def Let_def)
  show "\<not> timer_C w2"
    unfolding w2 by (simp add: watchdog_iteration_def Let_def)
  show "wd_cancelled w2" if "cancelled"
    using that unfolding w2 by (simp add: watchdog_iteration_def Let_def)
next
  assume a: "wd_cancelled w3 \<and> \<not> timer_C w3 \<and> \<not> wd_returned w3"
  then show "wd_step opts babyUID ctx (SelectTimer deltas cancelled) w3 = None" by simp
  from a show "map_option wd_returned (wd_step opts babyUID ctx SelectDone w3) = Some True"
    by simp
next
  assume a: "wd_returned w4 \<and> wd_run opts babyUID ctx evs' w4 = Some w5"
  then have "wd_returned w5 \<and> wd_trace w5 = wd_trace w4"
    using wd_run_returned by blast
  then show "wd_returned w5" "wd_trace w5 = wd_trace w4" by simp_all
qed

lemmas wd_eval = watchdog_start_def watchdog_iteration_def wd_schedule_def
  probe_invocations_def getLocalStreamURL_def Let_def

theorem runWatchDog_fixed_delay_and_unhealthy_witness:
  "map_option (\<lambda>w. wd_schedule (wd_trace w))
     (wd_run \<lparr>RTMP = None\<rparr> ''baby'' ''ctx''
        [TimerFires, SelectTimer [SetIsStreamAlive True NewState] False, TimerFires,
         SelectTimer [] False] (watchdog_start Map.empty))
   = Some [player_Run \<lparr>BabyUID = ''baby'', URL = []\<rparr> ''ctx'',
           StateUpdate ''baby'' (SetStreamState StreamState_Unhealthy NewState),
           timer_Reset (5 * Second),
           player_Run \<lparr>BabyUID = ''baby'', URL = []\<rparr> ''ctx'',
           StateUpdate ''baby'' (SetStreamState StreamState_Unhealthy NewState),
           timer_Reset (5 * Second)]
   \<and> map_option (\<lambda>w. GetStreamState (GetBabyState (wd_mgr w) ''baby''))
       (wd_step \<lparr>RTMP = None\<rparr> ''baby'' ''ctx''
          (SelectTimer [SetStreamState StreamState_Alive NewState] False)
          ((watchdog_start Map.empty)\<lparr>timer_C := True\<rparr>))
     = Some StreamState_Unhealthy
   \<and> wd_step \<lparr>RTMP = None\<rparr> ''baby'' ''ctx'' (SelectTimer [] False)
       ((watchdog_start Map.empty)\<lparr>wd_cancelled := True\<rparr>) = None
   \<and> map_option wd_trace
       (wd_run \<lparr>RTMP = None\<rparr> ''baby'' ''ctx'' [TimerFires, CtxCancelled]
          ((watchdog_start Map.empty)\<lparr>wd_returned := True\<rparr>))
     = Some []"
proof -
  let ?o = "\<lparr>RTMP = None\<rparr>"
  let ?evs = "[TimerFires, SelectTimer [SetIsStreamAlive True NewState] False, TimerFires,
         SelectTimer [] False]"
  let ?w1 = "(watchdog_start Map.empty)\<lparr>timer_C := True\<rparr>"
  let ?w3 = "(watchdog_start Map.empty)\<lparr>wd_cancelled := True\<rparr>"
  let ?w4 = "(watchdog_start Map.empty)\<lparr>wd_returned := True\<rparr>"
  obtain w where w: "wd_run ?o ''baby'' ''ctx'' ?evs (watchdog_start Map.empty) = Some w"
    by (simp add: wd_eval)
  obtain w2 where w2: "wd_step ?o ''baby'' ''ctx''
      (SelectTimer [SetStreamState StreamState_Alive NewState] False) ?w1 = Some w2"
    by (simp add: wd_eval)
  obtain w5 where w5: "wd_run ?o ''baby'' ''ctx'' [TimerFires, CtxCancelled] ?w4 = Some w5"
    by (simp add: wd_eval)
  have c: "wd_cancelled ?w3 \<and> \<not> timer_C ?w3 \<and> \<not> wd_returned ?w3"
    "wd_returned ?w4" "wd_trace ?w4 = []" "probe_invocations ?evs = 2"
    by (simp_all add: wd_eval)
  from runWatchDog_fixed_delay_and_unhealthy[of ?o "''baby''" "''ctx''" ?evs Map.empty w
      "[SetStreamState StreamState_Alive NewState]" False ?w1 w2 ?w3 ?w4
      "[TimerFires, CtxCancelled]" w5]
    w w2 w5 c
  show ?thesis
    by (simp add: getLocalStreamURL_def numeral_2_eq_2)
qed

lemma RunWithPerseverance_length: "length (RunWithPerseverance opts n rs) = length rs"
  by (induction rs arbitrary: n) auto

lemma RunWithPerseverance_rapid:
  assumes "\<forall>r \<in> set rs. rapid_failure opts r" and "Cooldown opts \<noteq> []" and "i < length rs"
  shows "RunWithPerseverance opts n rs ! i =
     (n + i, Some (Cooldown opts ! min (n + i - 1) (length (Cooldown opts) - 1)))"
  using assms
proof (induction rs arbitrary: n i)
  case Nil
  then show ?case by simp
next
  case (Cons r rs)
  have r: "failed r" "lasted r < ResetThreshold opts"
    using Cons.prems(1) by (simp_all add: rapid_failure_def)
  show ?case
  proof (cases i)
    case 0
    then show ?thesis using r Cons.prems(2) by (simp add: cooldown_wait_def)
  next
    case (Suc j)
    have n: "next_ordinal opts n r = n + 1" using r by (simp add: next_ordinal_def)
    have "RunWithPerseverance opts (n + 1) rs ! j =
        (n + 1 + j, Some (Cooldown opts ! min (n + 1 + j - 1) (length (Cooldown opts) - 1)))"
      using Cons.IH[of j "n + 1"] Cons.prems Suc by simp
    then show ?thesis using Suc n by simp
  qed
qed

lemma RunWithPerseverance_append:
  "RunWithPerseverance opts n (xs @ ys) =
     RunWithPerseverance opts n xs
       @ RunWithPerseverance opts (foldl (next_ordinal opts) n xs) ys"
  by (induction xs arbitrary: n) auto

text \<open>
  Claim C9. Under the supervisor, with a reset threshold of 2 s and a cooldown schedule
  that begins 2 s, 30 s, 2 min, three consecutive failures that each last less than
  2 s are followed by waits of 2 s, 30 s and 2 min; the \<open>i\<close>-th wait of a sequence of
  such failures is the entry \<open>min(i, len - 1)\<close> of the schedule, so the schedule stays at
  its last entry; and after a run that lasts at least 2 s the next run has ordinal 1,
  so that the wait after its rapid failure is 2 s again.
\<close>

theorem perseverance_cooldown_schedule:
  assumes "ResetThreshold opts = 2 * Second"
    and "Cooldown opts = 2 * Second # 30 * Second # 2 * Minute # further"
  shows "(rapid_failure opts r1 \<and> rapid_failure opts r2 \<and> rapid_failure opts r3 \<longrightarrow>
           map snd (RunWithPerseverance opts 1 [r1, r2, r3])
             = [Some (2 * Second), Some (30 * Second), Some (2 * Minute)])
     \<and> ((\<forall>r \<in> set rs. rapid_failure opts r) \<and> i < length rs \<longrightarrow>
           RunWithPerseverance opts 1 rs ! i =
             (i + 1, Some (Cooldown opts ! min i (length (Cooldown opts) - 1))))
     \<and> ((\<forall>r \<in> set rs. rapid_failure opts r) \<and> i < length rs
          \<and> length (Cooldown opts) - 1 \<le> i \<longrightarrow>
           snd (RunWithPerseverance opts 1 rs ! i) = Some (last (Cooldown opts)))
     \<and> (2 * Second \<le> lasted long \<and> rapid_failure opts r \<longrightarrow>
           last (RunWithPerseverance opts n (before @ [long, r])) = (1, Some (2 * Second)))"
proof (intro conjI impI)
  assume "rapid_failure opts r1 \<and> rapid_failure opts r2 \<and> rapid_failure opts r3"
  then show "map snd (RunWithPerseverance opts 1 [r1, r2, r3])
             = [Some (2 * Second), Some (30 * Second), Some (2 * Minute)]"
    using assms(2) by (simp add: rapid_failure_def cooldown_wait_def next_ordinal_def)
next
  assume a: "(\<forall>r \<in> set rs. rapid_failure opts r) \<and> i < length rs"
  have ne: "Cooldown opts \<noteq> []" using assms(2) by simp
  from a RunWithPerseverance_rapid[of rs opts i 1, OF _ ne]
  show "RunWithPerseverance opts 1 rs ! i =
             (i + 1, Some (Cooldown opts ! min i (length (Cooldown opts) - 1)))"
    by simp
next
  assume a: "(\<forall>r \<in> set rs. rapid_failure opts r) \<and> i < length rs
          \<and> length (Cooldown opts) - 1 \<le> i"
  have ne: "Cooldown opts \<noteq> []" using assms(2) by simp
  from a RunWithPerseverance_rapid[of rs opts i 1, OF _ ne]
  have "snd (RunWithPerseverance opts 1 rs ! i)
      = Some (Cooldown opts ! min i (length (Cooldown opts) - 1))"
    by simp
  moreover have "min i (length (Cooldown opts) - 1) = length (Cooldown opts) - 1"
    using a by simp
  ultimately show "snd (RunWithPerseverance opts 1 rs ! i) = Some (last (Cooldown opts))"
    using ne by (simp add: last_conv_nth)
next
  assume a: "2 * Second \<le> lasted long \<and> rapid_failure opts r"
  then show "last (RunWithPerseverance opts n (before @ [long, r])) = (1, Some (2 * Second))"
    using assms
    by (simp add: RunWithPerseverance_append rapid_failure_def cooldown_wait_def
          next_ordinal_def)
qed

theorem perseverance_cooldown_schedule_witness:
  "map snd (RunWithPerseverance (stream_processor_opts ''baby'') 1
     [\<lparr>lasted = Second, failed = True\<rparr>, \<lparr>lasted = 0, failed = True\<rparr>,
      \<lparr>lasted = Second, failed = True\<rparr>])
     = [Some (2 * Second), Some (30 * Second), Some (2 * Minute)]
   \<and> RunWithPerseverance (stream_processor_opts ''baby'') 1
       (replicate 7 \<lparr>lasted = Second, failed = True\<rparr>) ! 6 = (7, Some (1 * Hour))
   \<and> last (RunWithPerseverance (stream_processor_opts ''baby'') 3
       ([] @ [\<lparr>lasted = 5 * Second, failed = True\<rparr>, \<lparr>lasted = Second, failed = True\<rparr>]))
     = (1, Some (2 * Second))"
proof -
  let ?o = "stream_processor_opts ''baby''"
  let ?r = "\<lparr>lasted = Second, failed = True\<rparr>"
  let ?z = "\<lparr>lasted = 0, failed = True\<rparr>"
  let ?l = "\<lparr>lasted = 5 * Second, failed = True\<rparr>"
  have o: "ResetThreshold ?o = 2 * Second"
    "Cooldown ?o = 2 * Second # 30 * Second # 2 * Minute # [15 * Minute, 1 * Hour]"
    by (simp_all add: stream_processor_opts_def)
  have h: "rapid_failure ?o ?r \<and> rapid_failure ?o ?z \<and> rapid_failure ?o ?r"
    "(\<forall>r \<in> set (replicate 7 ?r). rapid_failure ?o r) \<and> 6 < length (replicate 7 ?r)"
    "2 * Second \<le> lasted ?l \<and> rapid_failure ?o ?r"
    by (simp_all add: rapid_failure_def stream_processor_opts_def Second_def)
  from perseverance_cooldown_schedule[OF o, of ?r ?z ?r "replicate 7 ?r" 6 ?l ?r 3 "[]"] h
  show ?thesis by (simp add: stream_processor_opts_def)
qed

lemma fail_calls_append: "fail_calls (xs @ ys) = fail_calls xs @ fail_calls ys"
  by (induction xs rule: fail_calls.induct) auto

lemma stream_process_select_done:
  "\<exists>e. fail_calls (stream_process_select (ProcessDone err) k) = [Some e]"
  "Process_Kill \<notin> set (stream_process_select (ProcessDone err) k)"
  by (cases err; simp add: stream_process_select_def)+

lemma stream_process_select_cancelled:
  "fail_calls (stream_process_select AttemptDone k) = []"
  "Process_Kill \<in> set (stream_process_select AttemptDone k)"
  by (cases k; simp add: stream_process_select_def)+

lemma started_actions:
  assumes "runStreamProcess try cmd logFilename env = Inr acts
           \<or> runStreamProcess_named cmd logFilename env = Inr acts"
  shows "fail_calls acts = fail_calls (stream_process_select (selected env) (kill_error env))
     \<and> (Process_Kill \<in> set acts \<longleftrightarrow>
          Process_Kill \<in> set (stream_process_select (selected env) (kill_error env)))"
  using assms
  by (auto simp: runStreamProcess_def runStreamProcess_named_def fail_calls_append
           split: option.splits)

text \<open>
  Claim C10. In every run of the stream processor that got its process started, if the
  process exits on its own, with an error or with status 0, \<open>attempt.Fail\<close> is called
  exactly once, with an error that is not nil, and the process is not killed; if the
  attempt is cancelled first, the process is killed and \<open>attempt.Fail\<close> is not called.
  This holds for both versions of \<open>runStreamProcess\<close>.
\<close>

theorem runStreamProcess_fail_exactly_once:
  assumes "runStreamProcess try cmd logFilename env = Inr acts
           \<or> runStreamProcess_named cmd logFilename env = Inr acts"
  shows "(selected env = ProcessDone err \<longrightarrow>
            (\<exists>e. fail_calls acts = [Some e]) \<and> Process_Kill \<notin> set acts)
     \<and> (selected env = AttemptDone \<longrightarrow>
            fail_calls acts = [] \<and> Process_Kill \<in> set acts)"
  using started_actions[OF assms] stream_process_select_done[of err "kill_error env"]
    stream_process_select_cancelled[of "kill_error env"]
  by auto

theorem runStreamProcess_fail_exactly_once_witness:
  "fail_calls (projr (runStreamProcess 2 ''cmd'' ''log''
       \<lparr>create_error = None, start_error = None,
        selected = ProcessDone None, kill_error = None\<rparr>))
     = [Some (errors_New ''Stream processor exited with status 0'')]
   \<and> fail_calls (projr (runStreamProcess_named ''cmd'' ''log''
       \<lparr>create_error = None, start_error = None,
        selected = AttemptDone, kill_error = None\<rparr>)) = []"
proof -
  let ?e1 = "\<lparr>create_error = None, start_error = None,
        selected = ProcessDone None, kill_error = None\<rparr>"
  let ?e2 = "\<lparr>create_error = None, start_error = None,
        selected = AttemptDone, kill_error = None\<rparr>"
  obtain a1 where a1: "runStreamProcess 2 ''cmd'' ''log'' ?e1 = Inr a1"
    by (simp add: runStreamProcess_def)
  obtain a2 where a2: "runStreamProcess_named ''cmd'' ''log'' ?e2 = Inr a2"
    by (simp add: runStreamProcess_named_def)
  have s: "selected ?e1 = ProcessDone None" "selected ?e2 = AttemptDone" by simp_all
  from runStreamProcess_fail_exactly_once[of 2 "''cmd''" "''log''" ?e1 a1 None, OF disjI1[OF a1]]
    runStreamProcess_fail_exactly_once[of 2 "''cmd''" "''log''" ?e2 a2 None, OF disjI2[OF a2]]
    s a1 a2
  show ?thesis
    by (auto simp: runStreamProcess_def runStreamProcess_named_def stream_process_select_def)
qed

end
